theory Spec2Isabelle
  imports Complex_Main
begin

section \<open>JavaScript numbers\<close>

text \<open>
  A JavaScript number is an IEEE-754 binary64 value: \<open>NaN\<close>, one of the two infinities,
  or a finite number, which is kept as the rational it denotes. Every arithmetic operation
  computes the exact result and rounds it to the nearest binary64 number, ties to the even
  significand, as the language prescribes: 53 significant bits, gradual underflow below
  \<open>2^-1022\<close> in steps of \<open>2^-1074\<close>, overflow to an infinity from \<open>2^1024\<close> on. The two
  zeros are one value here; the sign of a zero shows in the program only when the zero is a
  divisor, so the model and the program part only for a tile size of \<open>-0\<close>.
\<close>

datatype jsnum = NaN | NegInf | PosInf | Fin rat

text \<open>The integer part of the binary logarithm of a positive integer.\<close>

function ilog2 :: "int \<Rightarrow> nat" where
  "ilog2 n = (if n < 2 then 0 else Suc (ilog2 (n div 2)))"
  by pat_completeness auto
termination
  by (relation "measure nat") auto

declare ilog2.simps [simp del]

text \<open>The binary exponent of a positive rational \<open>x\<close>: \<open>2^e \<le> x < 2^(e+1)\<close>.\<close>

definition expo :: "rat \<Rightarrow> int" where
  "expo x = (if 1 \<le> x then int (ilog2 \<lfloor>x\<rfloor>)
             else - int (Suc (ilog2 (\<lceil>1 / x\<rceil> - 1))))"

text \<open>Rounding to the nearest integer, a tie to the even one.\<close>

definition rne :: "rat \<Rightarrow> int" where
  "rne y = (let f = \<lfloor>y\<rfloor>; d = y - of_int f
            in if d < 1 / 2 then f else if 1 / 2 < d then f + 1
               else if even f then f else f + 1)"

text \<open>
  Rounding to binary64: the unit in the last place is \<open>2^(e - 52)\<close> for the exponent \<open>e\<close>
  of the number, and \<open>2^-1074\<close> for the subnormal numbers.
\<close>

definition round_double :: "rat \<Rightarrow> jsnum" where
  "round_double x =
     (if x = 0 then Fin 0
      else let e = max (expo \<bar>x\<bar>) (- 1022);
               u = 2 powi (e - 52);
               v = of_int (rne (x / u)) * u
           in if 2 ^ 1024 \<le> \<bar>v\<bar> then (if 0 < x then PosInf else NegInf) else Fin v)"

text \<open>The rationals that are binary64 numbers.\<close>

definition is_double :: "rat \<Rightarrow> bool" where
  "is_double x = (round_double x = Fin x)"

fun js_add :: "jsnum \<Rightarrow> jsnum \<Rightarrow> jsnum" where
  "js_add NaN b = NaN"
| "js_add a NaN = NaN"
| "js_add (Fin a) (Fin b) = round_double (a + b)"
| "js_add (Fin a) PosInf = PosInf"
| "js_add (Fin a) NegInf = NegInf"
| "js_add PosInf NegInf = NaN"
| "js_add PosInf b = PosInf"
| "js_add NegInf PosInf = NaN"
| "js_add NegInf b = NegInf"

fun js_sub :: "jsnum \<Rightarrow> jsnum \<Rightarrow> jsnum" where
  "js_sub NaN b = NaN"
| "js_sub a NaN = NaN"
| "js_sub (Fin a) (Fin b) = round_double (a - b)"
| "js_sub (Fin a) PosInf = NegInf"
| "js_sub (Fin a) NegInf = PosInf"
| "js_sub PosInf PosInf = NaN"
| "js_sub PosInf b = PosInf"
| "js_sub NegInf NegInf = NaN"
| "js_sub NegInf b = NegInf"

fun js_mul :: "jsnum \<Rightarrow> jsnum \<Rightarrow> jsnum" where
  "js_mul NaN b = NaN"
| "js_mul a NaN = NaN"
| "js_mul (Fin a) (Fin b) = round_double (a * b)"
| "js_mul (Fin a) PosInf = (if a = 0 then NaN else if 0 < a then PosInf else NegInf)"
| "js_mul (Fin a) NegInf = (if a = 0 then NaN else if 0 < a then NegInf else PosInf)"
| "js_mul PosInf (Fin b) = (if b = 0 then NaN else if 0 < b then PosInf else NegInf)"
| "js_mul NegInf (Fin b) = (if b = 0 then NaN else if 0 < b then NegInf else PosInf)"
| "js_mul PosInf PosInf = PosInf"
| "js_mul PosInf NegInf = NegInf"
| "js_mul NegInf PosInf = NegInf"
| "js_mul NegInf NegInf = PosInf"

fun js_div :: "jsnum \<Rightarrow> jsnum \<Rightarrow> jsnum" where
  "js_div NaN b = NaN"
| "js_div a NaN = NaN"
| "js_div (Fin a) (Fin b) =
     (if b = 0 then (if a = 0 then NaN else if 0 < a then PosInf else NegInf)
      else round_double (a / b))"
| "js_div (Fin a) PosInf = Fin 0"
| "js_div (Fin a) NegInf = Fin 0"
| "js_div PosInf (Fin b) = (if 0 \<le> b then PosInf else NegInf)"
| "js_div NegInf (Fin b) = (if 0 \<le> b then NegInf else PosInf)"
| "js_div PosInf PosInf = NaN"
| "js_div PosInf NegInf = NaN"
| "js_div NegInf PosInf = NaN"
| "js_div NegInf NegInf = NaN"

text \<open>\<open>Math.ceil\<close>; the ceiling of a binary64 number is one.\<close>

fun js_ceil :: "jsnum \<Rightarrow> jsnum" where
  "js_ceil (Fin a) = Fin (of_int \<lceil>a\<rceil>)"
| "js_ceil a = a"

text \<open>The comparison \<open>a < b\<close>.\<close>

fun js_lt :: "jsnum \<Rightarrow> jsnum \<Rightarrow> bool" where
  "js_lt NaN b = False"
| "js_lt a NaN = False"
| "js_lt (Fin a) (Fin b) = (a < b)"
| "js_lt a NegInf = False"
| "js_lt PosInf b = False"
| "js_lt NegInf b = True"
| "js_lt a PosInf = True"

text \<open>A parameter with a default value: the default is taken when the argument is omitted.\<close>

fun default_arg :: "'a option \<Rightarrow> 'a \<Rightarrow> 'a" where
  "default_arg None d = d"
| "default_arg (Some v) d = v"

section \<open>The loop \<open>for (let i = 0; i < n; i++)\<close>\<close>

text \<open>
  The counter is a number: it is compared with the bound \<open>n\<close> before every iteration and
  \<open>i++\<close> adds 1 to it, rounded as every sum is. From \<open>2^53\<close> on the sum is rounded back to
  the counter itself, so a loop whose bound is above \<open>2^53\<close> does not end; not ending is
  the value \<open>None\<close>. The body transforms the state of the loop.
\<close>

partial_function (option) for_loop :: "jsnum \<Rightarrow> (jsnum \<Rightarrow> 's \<Rightarrow> 's option) \<Rightarrow> jsnum \<Rightarrow> 's \<Rightarrow> 's option"
where
  "for_loop n body i s =
     (if js_lt i n
      then Option.bind (body i s) (\<lambda>s'. for_loop n body (js_add i (Fin 1)) s')
      else Some s)"

declare for_loop.simps [code]

section \<open>Scene objects\<close>

text \<open>
  The part of the scene graph that the program reads or writes. The coordinates of a
  \<open>Vector3\<close> are \<open>vx\<close>, \<open>vy\<close>, \<open>vz\<close>.
\<close>

record vec3 =
  vx :: jsnum
  vy :: jsnum
  vz :: jsnum

record material =
  color :: int
  roughness :: jsnum

datatype geometry = BoxGeometry jsnum jsnum jsnum

datatype object3d =
  Object3D (name: string) (mesh: "(geometry \<times> material) option") (position: vec3)
    (castShadow: bool) (receiveShadow: bool) (children: "object3d list")

definition isMesh :: "object3d \<Rightarrow> bool" where
  "isMesh obj = (mesh obj \<noteq> None)"

definition origin :: vec3 where
  "origin = \<lparr>vx = Fin 0, vy = Fin 0, vz = Fin 0\<rparr>"

text \<open>\<open>new THREE.Group()\<close> and \<open>new THREE.Mesh(geometry, material)\<close>.\<close>

definition new_Group :: object3d where
  "new_Group = Object3D [] None origin False False []"

definition new_Mesh :: "geometry \<Rightarrow> material \<Rightarrow> object3d" where
  "new_Mesh g m = Object3D [] (Some (g, m)) origin False False []"

fun set_name :: "object3d \<Rightarrow> string \<Rightarrow> object3d" where
  "set_name (Object3D n m p c r ch) n' = Object3D n' m p c r ch"

fun position_set :: "object3d \<Rightarrow> jsnum \<Rightarrow> jsnum \<Rightarrow> jsnum \<Rightarrow> object3d" where
  "position_set (Object3D n m p c r ch) x y z = Object3D n m \<lparr>vx = x, vy = y, vz = z\<rparr> c r ch"

fun set_receiveShadow :: "object3d \<Rightarrow> bool \<Rightarrow> object3d" where
  "set_receiveShadow (Object3D n m p c r ch) r' = Object3D n m p c r' ch"

fun set_castShadow :: "object3d \<Rightarrow> bool \<Rightarrow> object3d" where
  "set_castShadow (Object3D n m p c r ch) c' = Object3D n m p c' r ch"

text \<open>\<open>parent.add(child)\<close> appends the child to the children of the parent.\<close>

fun add :: "object3d \<Rightarrow> object3d \<Rightarrow> object3d" where
  "add (Object3D n m p c r ch) child = Object3D n m p c r (ch @ [child])"

text \<open>
  \<open>setShadow\<close>: \<open>traverse\<close> visits the object and all its descendants; the flags of
  every mesh among them are overwritten.
\<close>

fun setShadow :: "object3d \<Rightarrow> bool \<Rightarrow> bool \<Rightarrow> object3d" where
  "setShadow (Object3D n m p c r ch) cast receive =
     Object3D n m p
       (if isMesh (Object3D n m p c r ch) then cast else c)
       (if isMesh (Object3D n m p c r ch) then receive else r)
       (map (\<lambda>child. setShadow child cast receive) ch)"

record scene =
  background :: "int option"
  scene_children :: "object3d list"

definition scene_add :: "scene \<Rightarrow> object3d \<Rightarrow> scene" where
  "scene_add sc obj = sc\<lparr>scene_children := scene_children sc @ [obj]\<rparr>"

section \<open>Loading a tile\<close>

text \<open>
  A call \<open>loader.load(url, callback)\<close> returns at once; the callback runs later, when
  the model file has been read. The call is recorded with what its callback has captured:
  the position of the tile. The callback itself is \<open>tile_onLoad\<close>: it receives the
  scene of the loaded file and the group it adds the tile to.
\<close>

record load_call =
  url :: string
  cb_posX :: jsnum
  cb_yPosition :: jsnum
  cb_posZ :: jsnum

definition tile_onLoad :: "load_call \<Rightarrow> object3d \<Rightarrow> object3d \<Rightarrow> object3d" where
  "tile_onLoad call gltf_scene baseplate =
     (let tile = gltf_scene;
          tile = position_set tile (cb_posX call) (cb_yPosition call) (cb_posZ call);
          tile = setShadow tile False True
      in add baseplate tile)"

section \<open>createBaseplate\<close>

definition tilesX :: "jsnum \<Rightarrow> jsnum \<Rightarrow> jsnum" where
  "tilesX width tileSize = js_ceil (js_div width tileSize)"

definition tilesZ :: "jsnum \<Rightarrow> jsnum \<Rightarrow> jsnum" where
  "tilesZ length' tileSize = js_ceil (js_div length' tileSize)"

definition offsetX :: "jsnum \<Rightarrow> jsnum \<Rightarrow> jsnum" where
  "offsetX tx tileSize = js_sub (js_div (js_mul tx tileSize) (Fin 2)) (js_div tileSize (Fin 2))"

definition offsetZ :: "jsnum \<Rightarrow> jsnum \<Rightarrow> jsnum" where
  "offsetZ tz tileSize = js_sub (js_div (js_mul tz tileSize) (Fin 2)) (js_div tileSize (Fin 2))"

text \<open>
  What a call of \<open>createBaseplate\<close> leaves behind: the group it returns, the scene with
  the group added, and the calls of the loader it has made, in order.
\<close>

record baseplate_result =
  baseplate :: object3d
  scene_after :: scene
  loads :: "load_call list"

text \<open>
  The function with its flag \<open>useTileAsset\<close> as a parameter; the source fixes the flag
  to \<open>true\<close>. The arguments \<open>yPosition\<close> and \<open>tileSize\<close> may be omitted.
\<close>

definition createBaseplate_with ::
  "bool \<Rightarrow> scene \<Rightarrow> jsnum \<Rightarrow> jsnum \<Rightarrow> jsnum option \<Rightarrow> jsnum option \<Rightarrow> baseplate_result option"
where
  "createBaseplate_with useTileAsset sc width length' yPosition_arg tileSize_arg =
     (let yPosition = default_arg yPosition_arg (Fin (- 4));
          tileSize = default_arg tileSize_arg (Fin 4);
          baseplate0 = set_name new_Group ''Baseplate'';
          tx = tilesX width tileSize;
          tz = tilesZ length' tileSize;
          ox = offsetX tx tileSize;
          oz = offsetZ tz tileSize
      in if useTileAsset then
           Option.bind
             (for_loop tx (\<lambda>x. for_loop tz (\<lambda>z calls.
                  let posX = js_sub (js_mul x tileSize) ox;
                      posZ = js_sub (js_mul z tileSize) oz
                  in Some (calls @ [\<lparr>url = ''./assets/base_tile.glb'', cb_posX = posX,
                                     cb_yPosition = yPosition, cb_posZ = posZ\<rparr>])) (Fin 0)) (Fin 0) [])
             (\<lambda>calls. Some \<lparr>baseplate = baseplate0, scene_after = scene_add sc baseplate0,
                             loads = calls\<rparr>)
         else
           (let geom = BoxGeometry tileSize (Fin (1 / 2)) tileSize;
                mat = \<lparr>color = 0x333333, roughness = round_double (8 / 10)\<rparr>
            in Option.bind
              (for_loop tx (\<lambda>x. for_loop tz (\<lambda>z bp.
                   let tile = new_Mesh geom mat;
                       tile = position_set tile
                                (js_sub (js_mul x tileSize) ox)
                                yPosition
                                (js_sub (js_mul z tileSize) oz);
                       tile = set_receiveShadow tile True;
                       tile = set_castShadow tile False
                   in Some (add bp tile)) (Fin 0)) (Fin 0) baseplate0)
              (\<lambda>bp. Some \<lparr>baseplate = bp, scene_after = scene_add sc bp, loads = []\<rparr>)))"

definition createBaseplate ::
  "scene \<Rightarrow> jsnum \<Rightarrow> jsnum \<Rightarrow> jsnum option \<Rightarrow> jsnum option \<Rightarrow> baseplate_result option"
where
  "createBaseplate = createBaseplate_with True"

text \<open>
  The placements of a result: the positions of the tiles in the group, followed by the
  positions that the callbacks of the recorded loads assign to their tiles.
\<close>

definition load_position :: "load_call \<Rightarrow> vec3" where
  "load_position call = \<lparr>vx = cb_posX call, vy = cb_yPosition call, vz = cb_posZ call\<rparr>"

definition placements :: "baseplate_result \<Rightarrow> vec3 list" where
  "placements res = map position (children (baseplate res)) @ map load_position (loads res)"

text \<open>
  The request that the asset mode makes for the tile of one cell, and the box mesh that
  the geometry mode adds for it: what the bodies of the loops build for the counters \<open>x\<close>
  and \<open>z\<close>.
\<close>

definition tile_load :: "jsnum \<Rightarrow> jsnum \<Rightarrow> jsnum \<Rightarrow> jsnum \<Rightarrow> jsnum \<Rightarrow> jsnum \<Rightarrow> load_call" where
  "tile_load tileSize ox oz yPosition x z =
     \<lparr>url = ''./assets/base_tile.glb'',
      cb_posX = js_sub (js_mul x tileSize) ox,
      cb_yPosition = yPosition,
      cb_posZ = js_sub (js_mul z tileSize) oz\<rparr>"

definition tile_mesh :: "jsnum \<Rightarrow> jsnum \<Rightarrow> jsnum \<Rightarrow> jsnum \<Rightarrow> jsnum \<Rightarrow> jsnum \<Rightarrow> object3d" where
  "tile_mesh tileSize ox oz yPosition x z =
     Object3D []
       (Some (BoxGeometry tileSize (Fin (1 / 2)) tileSize,
              \<lparr>color = 0x333333, roughness = round_double (8 / 10)\<rparr>))
       \<lparr>vx = js_sub (js_mul x tileSize) ox, vy = yPosition, vz = js_sub (js_mul z tileSize) oz\<rparr>
       False True []"

section \<open>The callers in \<open>main.js\<close>\<close>

text \<open>
  A string is the list of its UTF-16 code units. \<open>parseInt(string)\<close> without a radix, as
  the language defines it: leading white space and line terminators are skipped, a sign
  is read, a prefix \<open>0x\<close> or \<open>0X\<close> selects radix 16, and the longest run of digits is
  read as an integer, which is rounded to a number; with no digit the result is \<open>NaN\<close>.
  (For more than 20 decimal digits the language lets an engine round the digits after the
  20th first; the model rounds the exact integer once.)
\<close>

type_synonym js_string = "nat list"

definition code_units :: "string \<Rightarrow> js_string" where
  "code_units s = map of_char s"

definition is_space :: "nat \<Rightarrow> bool" where
  "is_space u =
     (u \<in> {0x9, 0xA, 0xB, 0xC, 0xD, 0x20, 0xA0, 0x1680, 0x2028, 0x2029, 0x202F, 0x205F, 0x3000, 0xFEFF}
      \<or> (0x2000 \<le> u \<and> u \<le> 0x200A))"

definition digit_value :: "nat \<Rightarrow> nat option" where
  "digit_value u =
     (if 48 \<le> u \<and> u \<le> 57 then Some (u - 48)
      else if 97 \<le> u \<and> u \<le> 122 then Some (u - 87)
      else if 65 \<le> u \<and> u \<le> 90 then Some (u - 55)
      else None)"

fun parse_digits :: "int \<Rightarrow> js_string \<Rightarrow> int option \<Rightarrow> int option" where
  "parse_digits R [] acc = acc"
| "parse_digits R (u # us) acc =
     (case digit_value u of
        None \<Rightarrow> acc
      | Some d \<Rightarrow>
          if int d < R then parse_digits R us (Some (R * (case acc of None \<Rightarrow> 0 | Some a \<Rightarrow> a) + int d))
          else acc)"

fun strip_sign :: "js_string \<Rightarrow> int \<times> js_string" where
  "strip_sign [] = (1, [])"
| "strip_sign (u # us) =
     (if u = 0x2D then (- 1, us) else if u = 0x2B then (1, us) else (1, u # us))"

fun strip_radix :: "js_string \<Rightarrow> int \<times> js_string" where
  "strip_radix (a # b # us) =
     (if a = 0x30 \<and> (b = 0x78 \<or> b = 0x58) then (16, us) else (10, a # b # us))"
| "strip_radix us = (10, us)"

definition parseInt :: "js_string \<Rightarrow> jsnum" where
  "parseInt str =
     (let (sign, s) = strip_sign (dropWhile is_space str);
          (R, s) = strip_radix s
      in case parse_digits R s None of
           None \<Rightarrow> NaN
         | Some n \<Rightarrow> round_double (of_int (sign * n)))"

text \<open>
  \<open>setupEnvironment\<close> sets the background of the scene and creates the baseplate at
  height -4 with the default tile size. It returns nothing; what remains is the scene and
  the loads that were requested.
\<close>

definition setupEnvironment ::
  "scene \<Rightarrow> jsnum option \<Rightarrow> jsnum option \<Rightarrow> (scene \<times> load_call list) option"
where
  "setupEnvironment sc baseplateWidth_arg baseplateLength_arg =
     (let baseplateWidth = default_arg baseplateWidth_arg (Fin 80);
          baseplateLength = default_arg baseplateLength_arg (Fin 80);
          sc = sc\<lparr>background := Some 0x9ad0ec\<rparr>;
          position = \<lparr>vx = Fin 0, vy = Fin (- 4), vz = Fin 0\<rparr>
      in map_option (\<lambda>res. (scene_after res, loads res))
           (createBaseplate sc baseplateWidth baseplateLength (Some (vy position)) None))"

text \<open>
  \<open>init\<close> builds a new scene with an ambient and a directional light and sets up the
  environment. Of a light the model keeps its position and its shadow flag. The renderer,
  the camera, the controls and the animation loop do not reach the baseplate and are left
  out.
\<close>

definition new_Scene :: scene where
  "new_Scene = \<lparr>background = None, scene_children = []\<rparr>"

definition new_Light :: object3d where
  "new_Light = Object3D [] None origin False False []"

definition init :: "jsnum option \<Rightarrow> jsnum option \<Rightarrow> (scene \<times> load_call list) option" where
  "init baseplateWidth_arg baseplateLength_arg =
     (let baseplateWidth = default_arg baseplateWidth_arg (Fin 100);
          baseplateLength = default_arg baseplateLength_arg (Fin 100);
          sc = new_Scene;
          ambientLight = new_Light;
          sc = scene_add sc ambientLight;
          directionalLight = new_Light;
          directionalLight = position_set directionalLight (Fin 50) (Fin 100) (Fin 50);
          directionalLight = set_castShadow directionalLight True;
          sc = scene_add sc directionalLight
      in setupEnvironment sc (Some baseplateWidth) (Some baseplateLength))"

text \<open>
  The listener of the button: it reads the text of the two inputs and calls \<open>init\<close> with
  what \<open>parseInt\<close> makes of them. Before the call it empties the page and after the call
  it puts the panel with the inputs back; the page is not part of the state kept here.
\<close>

definition generateButton_click :: "js_string \<Rightarrow> js_string \<Rightarrow> (scene \<times> load_call list) option" where
  "generateButton_click widthInput_value lengthInput_value =
     init (Some (parseInt widthInput_value)) (Some (parseInt lengthInput_value))"

text \<open>A dimension is valid when it is a number above 0.\<close>

definition invalid_dimension :: "jsnum \<Rightarrow> bool" where
  "invalid_dimension d = (\<not> js_lt (Fin 0) d)"

text \<open>
  A dimension on which the arithmetic of the layout is exact: a positive integer up to
  \<open>2^52\<close>, as \<open>parseInt\<close> reads from the fields of the page.
\<close>

definition exact_dimension :: "rat \<Rightarrow> bool" where
  "exact_dimension d = (0 < d \<and> d \<le> 2 ^ 52 \<and> of_int \<lfloor>d\<rfloor> = d)"

text \<open>A bound with which a loop ends: a number that is at most \<open>2^53\<close>.\<close>

fun loop_ends :: "jsnum \<Rightarrow> bool" where
  "loop_ends (Fin c) = (c \<le> 2 ^ 53)"
| "loop_ends NaN = True"
| "loop_ends NegInf = True"
| "loop_ends PosInf = False"

text \<open>The number of iterations of a loop that ends.\<close>

fun iterations :: "jsnum \<Rightarrow> nat" where
  "iterations (Fin c) = nat \<lceil>c\<rceil>"
| "iterations n = 0"

section \<open>The layout of the specification\<close>

text \<open>
  The grid of the specification: \<open>columns\<close> and \<open>rows\<close> are the ceilings of the
  quotients, the offsets centre the grid, and every cell has one placement. The cells are
  listed in the order of the loops of the source: column by column.
\<close>

definition columns :: "rat \<Rightarrow> rat \<Rightarrow> nat" where
  "columns width tileSize = nat \<lceil>width / tileSize\<rceil>"

definition rows :: "rat \<Rightarrow> rat \<Rightarrow> nat" where
  "rows length' tileSize = nat \<lceil>length' / tileSize\<rceil>"

definition centre_offset :: "nat \<Rightarrow> rat \<Rightarrow> rat" where
  "centre_offset n tileSize = (of_nat n * tileSize) / 2 - tileSize / 2"

definition grid :: "nat \<Rightarrow> nat \<Rightarrow> (nat \<Rightarrow> nat \<Rightarrow> 'a) \<Rightarrow> 'a list" where
  "grid nx nz h = concat (map (\<lambda>x. map (\<lambda>z. h x z) [0..<nz]) [0..<nx])"

definition computeTilePlacements :: "rat \<Rightarrow> rat \<Rightarrow> rat \<Rightarrow> jsnum \<Rightarrow> vec3 list" where
  "computeTilePlacements width length' tileSize plateHeight =
     grid (columns width tileSize) (rows length' tileSize)
       (\<lambda>column row.
          \<lparr>vx = Fin (of_nat column * tileSize - centre_offset (columns width tileSize) tileSize),
           vy = plateHeight,
           vz = Fin (of_nat row * tileSize - centre_offset (rows length' tileSize) tileSize)\<rparr>)"

text \<open>
  The coordinates along one axis of a grid of \<open>n\<close> tiles: the centres of the tiles,
  moved by the offset.
\<close>

definition axis_coordinates :: "nat \<Rightarrow> rat \<Rightarrow> rat set" where
  "axis_coordinates n tileSize = (\<lambda>i. of_nat i * tileSize - centre_offset n tileSize) ` {..<n}"

text \<open>
  The scene in which \<open>init\<close> creates the baseplate: the two lights, and the background
  that \<open>setupEnvironment\<close> has set.
\<close>

definition initial_scene :: scene where
  "initial_scene =
     \<lparr>background = Some 0x9ad0ec,
      scene_children = [Object3D [] None origin False False [],
                        Object3D [] None \<lparr>vx = Fin 50, vy = Fin 100, vz = Fin 50\<rparr> True False []]\<rparr>"

section \<open>The loops in closed form\<close>

text \<open>The values that the counter of a loop takes from \<open>i\<close> up to, but not including, \<open>n\<close>.\<close>

definition counters :: "nat \<Rightarrow> nat \<Rightarrow> jsnum list" where
  "counters i n = map (\<lambda>j. Fin (of_nat j)) [i..<n]"

text \<open>
  The result of \<open>createBaseplate\<close> for every input: it returns when the loop over the
  columns ends and, unless there is no column, the loop over the rows ends too. The asset
  mode then has requested one load for every cell, and the geometry mode has added one box
  mesh for every cell to the group.
\<close>

definition layout_result :: "bool \<Rightarrow> scene \<Rightarrow> jsnum \<Rightarrow> jsnum \<Rightarrow> jsnum \<Rightarrow> jsnum \<Rightarrow> baseplate_result" where
  "layout_result useTileAsset sc width length' yPosition tileSize =
     (let tx = tilesX width tileSize; tz = tilesZ length' tileSize;
          ox = offsetX tx tileSize; oz = offsetZ tz tileSize
      in if useTileAsset then
           \<lparr>baseplate = Object3D ''Baseplate'' None origin False False [],
            scene_after = scene_add sc (Object3D ''Baseplate'' None origin False False []),
            loads = grid (iterations tx) (iterations tz)
                      (\<lambda>x z. tile_load tileSize ox oz yPosition (Fin (of_nat x)) (Fin (of_nat z)))\<rparr>
         else
           (let bp = Object3D ''Baseplate'' None origin False False
                       (grid (iterations tx) (iterations tz)
                          (\<lambda>x z. tile_mesh tileSize ox oz yPosition (Fin (of_nat x)) (Fin (of_nat z))))
            in \<lparr>baseplate = bp, scene_after = scene_add sc bp, loads = []\<rparr>))"

definition returns :: "jsnum \<Rightarrow> jsnum \<Rightarrow> jsnum \<Rightarrow> bool" where
  "returns width length' tileSize =
     (loop_ends (tilesX width tileSize) \<and>
      (iterations (tilesX width tileSize) = 0 \<or> loop_ends (tilesZ length' tileSize)))"

definition d_0_7 :: rat where "d_0_7 = 3152519739159347 / 2 ^ 52"

section \<open>Rounding to binary64\<close>

lemma ilog2_bounds: "0 < n \<Longrightarrow> 2 ^ ilog2 n \<le> n \<and> n < 2 ^ Suc (ilog2 n)"
proof (induction n rule: ilog2.induct)
  case (1 n)
  show ?case
  proof (cases "n < 2")
    case True
    with "1.prems" have "n = 1" by simp
    then show ?thesis by (simp add: ilog2.simps)
  next
    case False
    then have pos: "0 < n div 2" by simp
    from "1.IH" [OF False pos]
    have lo: "2 ^ ilog2 (n div 2) \<le> n div 2" and hi: "n div 2 < 2 ^ Suc (ilog2 (n div 2))"
      by simp_all
    have eq: "ilog2 n = Suc (ilog2 (n div 2))" using False by (subst ilog2.simps) simp
    from lo have "2 * 2 ^ ilog2 (n div 2) \<le> n" by linarith
    moreover from hi have "n < 2 * 2 ^ Suc (ilog2 (n div 2))" by linarith
    ultimately show ?thesis by (simp add: eq)
  qed
qed

lemma expo_bounds:
  assumes x: "0 < x"
  shows "2 powi expo x \<le> x \<and> x < 2 powi (expo x + 1)"
proof (cases "1 \<le> x")
  case True
  let ?n = "\<lfloor>x\<rfloor>"
  from True have n: "0 < ?n" by simp
  have e: "expo x = int (ilog2 ?n)" using True by (simp add: expo_def)
  from ilog2_bounds [OF n] have lo: "2 ^ ilog2 ?n \<le> ?n" and hi: "?n < 2 ^ Suc (ilog2 ?n)" by simp_all
  from hi have hi': "?n + 1 \<le> 2 ^ Suc (ilog2 ?n)" by simp
  have "x < rat_of_int (?n + 1)" by linarith
  then have "x < rat_of_int (2 ^ Suc (ilog2 ?n))"
    using of_int_le_iff [THEN iffD2, OF hi'] by (rule less_le_trans)
  then have up: "x < 2 ^ Suc (ilog2 ?n)" by simp
  have "rat_of_int (2 ^ ilog2 ?n) \<le> x"
    using of_int_le_iff [THEN iffD2, OF lo] of_int_floor_le [of x] by (rule order_trans)
  then have low: "2 ^ ilog2 ?n \<le> x" by simp
  have "2 powi (int (ilog2 ?n) + 1) = (2::rat) ^ Suc (ilog2 ?n)"
    by (simp add: power_int_add)
  with low up show ?thesis by (simp add: e)
next
  case False
  let ?N = "\<lceil>1 / x\<rceil>"
  let ?m = "?N - 1"
  let ?k = "ilog2 ?m"
  from False x have inv: "1 < 1 / x" by simp
  then have "1 < ?N" by (simp add: less_ceiling_iff)
  then have m: "0 < ?m" by simp
  have e: "expo x = - int (Suc ?k)" using False by (simp add: expo_def)
  from ilog2_bounds [OF m] have lo: "2 ^ ?k \<le> ?m" and hi: "?m < 2 ^ Suc ?k" by simp_all
  from hi have hi': "?N \<le> 2 ^ Suc ?k" by simp
  have "1 / x \<le> rat_of_int (2 ^ Suc ?k)"
    using le_of_int_ceiling [of "1 / x"] of_int_le_iff [THEN iffD2, OF hi'] by (rule order_trans)
  then have a: "1 / x \<le> 2 ^ Suc ?k" by simp
  have b: "2 ^ ?k < 1 / x"
  proof -
    have "rat_of_int ?m < 1 / x" using ceiling_correct [of "1 / x"] by simp
    with of_int_le_iff [THEN iffD2, OF lo] have "rat_of_int (2 ^ ?k) < 1 / x" by (rule le_less_trans)
    then show ?thesis by simp
  qed
  from a x have low: "1 / 2 ^ Suc ?k \<le> x"
    by (simp add: field_simps)
  from b x have up: "x < 1 / 2 ^ ?k"
    by (simp add: field_simps)
  have p1: "2 powi (- int (Suc ?k)) = 1 / (2::rat) ^ Suc ?k"
    by (simp only: power_int_minus_divide power_int_of_nat)
  have p2: "2 powi (- int (Suc ?k) + 1) = 1 / (2::rat) ^ ?k"
  proof -
    have "- int (Suc ?k) + 1 = - int ?k" by simp
    then show ?thesis by (simp only: power_int_minus_divide power_int_of_nat)
  qed
  from low up show ?thesis unfolding e p1 p2 by simp
qed

lemma expo_unique:
  assumes "0 < x" "2 powi e \<le> x" "x < 2 powi (e + 1)"
  shows "expo x = e"
proof -
  from expo_bounds [OF assms(1)] have lo: "2 powi expo x \<le> x" and hi: "x < 2 powi (expo x + 1)"
    by simp_all
  have a: "(2::rat) powi e < 2 powi (expo x + 1)" using assms(2) hi by simp
  have "e < expo x + 1"
  proof (rule ccontr)
    assume "\<not> e < expo x + 1"
    then have "(2::rat) powi (expo x + 1) \<le> 2 powi e" by (intro power_int_increasing) simp_all
    with a show False by simp
  qed
  moreover have b: "(2::rat) powi expo x < 2 powi (e + 1)" using lo assms(3) by simp
  have "expo x < e + 1"
  proof (rule ccontr)
    assume "\<not> expo x < e + 1"
    then have "(2::rat) powi (e + 1) \<le> 2 powi expo x" by (intro power_int_increasing) simp_all
    with b show False by simp
  qed
  ultimately show ?thesis by simp
qed

lemma rne_of_int [simp]: "rne (of_int n) = n"
  by (simp add: rne_def)

lemma rne_le: "y \<le> of_int N \<Longrightarrow> rne y \<le> N"
proof -
  assume a: "y \<le> of_int N"
  show ?thesis
  proof (cases "y = of_int \<lfloor>y\<rfloor>")
    case True
    then have "rne y = \<lfloor>y\<rfloor>" by (metis rne_of_int)
    with a show ?thesis by (simp add: floor_le_iff)
  next
    case False
    then have "of_int \<lfloor>y\<rfloor> < y" using of_int_floor_le [of y] by linarith
    with a have "\<lfloor>y\<rfloor> < N" by (metis floor_less_iff less_le_trans floor_of_int of_int_less_iff order_less_le_trans)
    moreover have "rne y \<le> \<lfloor>y\<rfloor> + 1" by (simp add: rne_def Let_def)
    ultimately show ?thesis by linarith
  qed
qed

lemma rne_ge: "of_int N \<le> y \<Longrightarrow> N \<le> rne y"
proof -
  assume "of_int N \<le> y"
  then have "N \<le> \<lfloor>y\<rfloor>" by (simp add: le_floor_iff)
  moreover have "\<lfloor>y\<rfloor> \<le> rne y" by (simp add: rne_def Let_def)
  ultimately show ?thesis by linarith
qed

lemma rne_error: "\<bar>of_int (rne y) - y\<bar> \<le> 1 / 2"
proof -
  have "of_int \<lfloor>y\<rfloor> \<le> y" "y < of_int \<lfloor>y\<rfloor> + 1" by linarith+
  then show ?thesis by (auto simp: rne_def Let_def abs_le_iff)
qed

lemma rne_unique: "\<bar>y - of_int m\<bar> < 1 / 2 \<Longrightarrow> rne y = m"
proof -
  assume a: "\<bar>y - of_int m\<bar> < 1 / 2"
  have e: "\<bar>of_int (rne y) - y\<bar> \<le> 1 / 2" by (rule rne_error)
  from a e have "\<bar>rat_of_int (rne y) - of_int m\<bar> < 1" by linarith
  then have "\<bar>rat_of_int (rne y - m)\<bar> < 1" by simp
  then have "\<bar>rne y - m\<bar> < 1" by (metis of_int_abs of_int_less_1_iff)
  then show ?thesis by linarith
qed

lemma rne_tie: "y = of_int f + 1 / 2 \<Longrightarrow> rne y = (if even f then f else f + 1)"
proof -
  assume y: "y = of_int f + 1 / 2"
  have "\<lfloor>y\<rfloor> = f" unfolding y by (rule floor_unique) simp_all
  then show ?thesis by (simp add: rne_def Let_def y)
qed

lemma round_double_normal:
  assumes e: "2 powi e \<le> \<bar>x\<bar>" "\<bar>x\<bar> < 2 powi (e + 1)" and n: "- 1022 \<le> e"
    and m: "rne (x / 2 powi (e - 52)) = m"
    and fin: "\<bar>of_int m * 2 powi (e - 52)\<bar> < (2::rat) ^ 1024"
  shows "round_double x = Fin (of_int m * 2 powi (e - 52))"
proof -
  from e(1) have pos: "0 < \<bar>x\<bar>" by (rule less_le_trans [rotated]) simp
  then have x: "x \<noteq> 0" by simp
  have "expo \<bar>x\<bar> = e" using pos e by (rule expo_unique)
  with n have "max (expo \<bar>x\<bar>) (- 1022) = e" by simp
  with x m fin show ?thesis by (simp add: round_double_def Let_def)
qed

lemma round_double_dyadic:
  assumes m: "\<bar>m\<bar> < 2 ^ 53" and j: "- 1074 \<le> j" "j \<le> 971"
  shows "round_double (of_int m * 2 powi j) = Fin (of_int m * 2 powi j)"
proof (cases "m = 0")
  case True
  then show ?thesis by (simp add: round_double_def)
next
  case False
  let ?x = "rat_of_int m * 2 powi j"
  let ?a = "\<bar>?x\<bar>"
  have a: "?a = of_int \<bar>m\<bar> * 2 powi j" by (simp add: abs_mult)
  from False have pos: "0 < ?a" by simp
  define e where "e = expo ?a"
  from expo_bounds [OF pos] have lo: "2 powi e \<le> ?a" unfolding e_def by simp
  have "rat_of_int \<bar>m\<bar> < rat_of_int (2 ^ 53)" using m by (simp only: of_int_less_iff)
  then have "rat_of_int \<bar>m\<bar> < 2 ^ 53" by simp
  then have "?a < 2 ^ 53 * 2 powi j" unfolding a by (simp add: mult_strict_right_mono)
  also have "\<dots> = 2 powi (53 + j)" by (simp add: power_int_add)
  finally have up: "?a < 2 powi (53 + j)" .
  have "e < 53 + j"
  proof (rule ccontr)
    assume "\<not> e < 53 + j"
    then have "(2::rat) powi (53 + j) \<le> 2 powi e" by (intro power_int_increasing) simp_all
    with lo up show False by simp
  qed
  define e' where "e' = max e (- 1022)"
  have e': "e' - 52 \<le> j" using \<open>e < 53 + j\<close> j by (simp add: e'_def)
  define d where "d = nat (j - (e' - 52))"
  have "2 powi j = (2::rat) powi (e' - 52) * 2 powi (int d)"
    using e' by (simp add: d_def flip: power_int_add)
  then have split: "2 powi j = (2::rat) powi (e' - 52) * 2 ^ d" by simp
  have q: "?x / 2 powi (e' - 52) = of_int (m * 2 ^ d)"
    by (simp add: split)
  have r: "rne (?x / 2 powi (e' - 52)) = m * 2 ^ d" unfolding q by (rule rne_of_int)
  have v: "of_int (m * 2 ^ d) * 2 powi (e' - 52) = ?x" by (simp add: split)
  have "(2::rat) powi (53 + j) \<le> 2 powi 1024" using j by (intro power_int_increasing) simp_all
  with up have fin: "?a < 2 ^ 1024" by simp
  from False have nz: "?x \<noteq> 0" by simp
  show ?thesis
    using nz fin
    by (simp add: round_double_def Let_def e_def [symmetric] e'_def [symmetric] r v del: of_int_mult)
qed

lemma round_double_int:
  assumes "\<bar>n\<bar> \<le> 2 ^ 53"
  shows "round_double (of_int n) = Fin (of_int n)"
proof (cases "\<bar>n\<bar> < 2 ^ 53")
  case True
  from round_double_dyadic [OF True, of 0] show ?thesis by simp
next
  case False
  with assms have "\<bar>n\<bar> = 2 ^ 53" by simp
  then have "n = 2 ^ 53 \<or> n = - (2 ^ 53)" by linarith
  then have n: "rat_of_int n = of_int (n div 2) * 2 powi 1" and h: "\<bar>n div 2\<bar> < 2 ^ 53"
    by auto
  from round_double_dyadic [OF h, of 1] show ?thesis unfolding n [symmetric] by simp
qed

lemma round_double_half:
  assumes "\<bar>m\<bar> \<le> 2 ^ 53"
  shows "round_double (of_int m / 2) = Fin (of_int m / 2)"
proof (cases "\<bar>m\<bar> < 2 ^ 53")
  case True
  from round_double_dyadic [OF True, of "- 1"] show ?thesis by (simp add: power_int_minus_divide)
next
  case False
  with assms have "\<bar>m\<bar> = 2 ^ 53" by simp
  then have "m = 2 ^ 53 \<or> m = - (2 ^ 53)" by linarith
  then have n: "rat_of_int m / 2 = of_int (m div 2)" and h: "\<bar>m div 2\<bar> \<le> 2 ^ 53"
    by auto
  from round_double_int [OF h] show ?thesis unfolding n .
qed

lemma round_double_bounds:
  assumes x: "0 < x" "x < 2 ^ 53"
  shows "\<exists>v. round_double x = Fin v \<and>
           (\<forall>N. x \<le> of_int N \<longrightarrow> v \<le> of_int N) \<and>
           (\<forall>N. of_int N \<le> x \<longrightarrow> of_int N \<le> v) \<and>
           (2 powi (- 1022) \<le> x \<longrightarrow> \<bar>v - x\<bar> \<le> x / 2 ^ 53)"
proof -
  define e where "e = expo x"
  from expo_bounds [OF x(1)] have lo: "2 powi e \<le> x" and hi: "x < 2 powi (e + 1)"
    unfolding e_def by simp_all
  have "e < 53"
  proof (rule ccontr)
    assume "\<not> e < 53"
    then have "(2::rat) powi 53 \<le> 2 powi e" by (intro power_int_increasing) simp_all
    with lo x(2) show False by simp
  qed
  define e' where "e' = max e (- 1022)"
  have e': "e' \<le> 52" using \<open>e < 53\<close> by (simp add: e'_def)
  define d where "d = nat (52 - e')"
  define u where "u = (2::rat) powi (e' - 52)"
  have "e' - 52 = - int d" using e' by (simp add: d_def)
  then have u: "u = 1 / 2 ^ d" unfolding u_def by (simp only: power_int_minus_divide power_int_of_nat)
  have upos: "0 < u" by (simp add: u_def)
  define y where "y = x / u"
  have y: "y = x * 2 ^ d" by (simp add: y_def u)
  define v where "v = of_int (rne y) * u"
  have le: "v \<le> of_int N" if "x \<le> of_int N" for N
  proof -
    from that have "y \<le> of_int N * 2 ^ d" unfolding y by (simp add: mult_right_mono)
    then have "y \<le> of_int (N * 2 ^ d)" by simp
    then have "rne y \<le> N * 2 ^ d" by (rule rne_le)
    then have "rat_of_int (rne y) \<le> of_int (N * 2 ^ d)" by (simp only: of_int_le_iff)
    then show ?thesis by (simp add: v_def u field_simps)
  qed
  have ge: "of_int N \<le> v" if "of_int N \<le> x" for N
  proof -
    from that have "of_int N * 2 ^ d \<le> y" unfolding y by (simp add: mult_right_mono)
    then have "of_int (N * 2 ^ d) \<le> y" by simp
    then have "N * 2 ^ d \<le> rne y" by (rule rne_ge)
    then have "rat_of_int (N * 2 ^ d) \<le> of_int (rne y)" by (simp only: of_int_le_iff)
    then show ?thesis by (simp add: v_def u field_simps)
  qed
  have "0 \<le> v" using ge [of 0] x(1) by simp
  moreover have "v \<le> 2 ^ 53" using le [of "2 ^ 53"] x(2) by simp
  ultimately have fin: "\<bar>v\<bar> < 2 ^ 1024" by simp
  have rd: "round_double x = Fin v"
    using x(1) fin
    by (simp add: round_double_def Let_def e_def [symmetric] e'_def [symmetric]
        u_def [symmetric] y_def [symmetric] v_def [symmetric])
  have err: "\<bar>v - x\<bar> \<le> x / 2 ^ 53" if n: "2 powi (- 1022) \<le> x"
  proof -
    have "- 1022 < e + 1"
    proof (rule ccontr)
      assume "\<not> - 1022 < e + 1"
      then have "(2::rat) powi (e + 1) \<le> 2 powi (- 1022)" by (intro power_int_increasing) simp_all
      with hi n show False by simp
    qed
    then have ee: "e' = e" by (simp add: e'_def)
    have "v - x = (of_int (rne y) - y) * u" using upos by (simp add: v_def y_def algebra_simps)
    then have "\<bar>v - x\<bar> = \<bar>of_int (rne y) - y\<bar> * u" using upos by (simp add: abs_mult)
    also have "\<dots> \<le> 1 / 2 * u" using rne_error [of y] upos by (simp add: mult_right_mono)
    also have "\<dots> = 2 powi e / 2 ^ 53"
    proof -
      have "(2::rat) powi e = 2 powi (e - 52) * 2 powi 52"
        using power_int_add [of "2::rat" "e - 52" 52] by simp
      then show ?thesis by (simp add: u_def ee)
    qed
    also have "\<dots> \<le> x / 2 ^ 53" using lo by (simp add: divide_right_mono)
    finally show ?thesis .
  qed
  from rd le ge err show ?thesis by blast
qed

lemma round_double_subnormal:
  assumes x: "x \<noteq> 0" "\<bar>x\<bar> < 2 powi (- 1022)"
    and m: "rne (x / 2 powi (- 1074)) = m"
    and fin: "\<bar>of_int m * 2 powi (- 1074)\<bar> < (2::rat) ^ 1024"
  shows "round_double x = Fin (of_int m * 2 powi (- 1074))"
proof -
  from x(1) have pos: "0 < \<bar>x\<bar>" by simp
  from expo_bounds [OF pos] have lo: "2 powi expo \<bar>x\<bar> \<le> \<bar>x\<bar>" by simp
  have "expo \<bar>x\<bar> < - 1022"
  proof (rule ccontr)
    assume "\<not> expo \<bar>x\<bar> < - 1022"
    then have "(2::rat) powi (- 1022) \<le> 2 powi expo \<bar>x\<bar>" by (intro power_int_increasing) simp_all
    with lo x(2) show False by linarith
  qed
  then have "max (expo \<bar>x\<bar>) (- 1022) = - 1022" by simp
  with x(1) m fin show ?thesis by (simp add: round_double_def Let_def)
qed

lemma round_double_nonpos:
  assumes "x \<le> 0"
  shows "round_double x = NegInf \<or> (\<exists>v\<le>0. round_double x = Fin v)"
proof (cases "x = 0")
  case True
  then show ?thesis by (simp add: round_double_def)
next
  case False
  define u where "u = (2::rat) powi (max (expo \<bar>x\<bar>) (- 1022) - 52)"
  define v where "v = rat_of_int (rne (x / u)) * u"
  have rd: "round_double x =
      (if 2 ^ 1024 \<le> \<bar>v\<bar> then (if 0 < x then PosInf else NegInf) else Fin v)"
    using False by (simp add: round_double_def Let_def u_def v_def)
  have upos: "0 < u" by (simp add: u_def)
  with assms have "x / u \<le> of_int 0" by (simp add: divide_nonpos_pos)
  then have "rne (x / u) \<le> 0" by (rule rne_le)
  then have "rat_of_int (rne (x / u)) \<le> 0" by simp
  with upos have "v \<le> 0" by (simp add: v_def mult_nonpos_nonneg)
  with assms show ?thesis unfolding rd by auto
qed

lemma round_double_finite:
  assumes "\<bar>x\<bar> < 2 ^ 1023"
  shows "\<exists>v. round_double x = Fin v"
proof (cases "x = 0")
  case True
  then show ?thesis by (simp add: round_double_def)
next
  case False
  then have pos: "0 < \<bar>x\<bar>" by simp
  define e where "e = expo \<bar>x\<bar>"
  from expo_bounds [OF pos] have lo: "2 powi e \<le> \<bar>x\<bar>" and hi: "\<bar>x\<bar> < 2 powi (e + 1)"
    unfolding e_def by simp_all
  have "e < 1023"
  proof (rule ccontr)
    assume "\<not> e < 1023"
    then have "(2::rat) powi 1023 \<le> 2 powi e" by (intro power_int_increasing) simp_all
    with lo assms show False by simp
  qed
  define e' where "e' = max e (- 1022)"
  have e': "e \<le> e'" "e' \<le> 1022" using \<open>e < 1023\<close> by (simp_all add: e'_def)
  define u where "u = (2::rat) powi (e' - 52)"
  have upos: "0 < u" by (simp add: u_def)
  have pw: "2 powi (e' + 1) = 2 ^ 53 * u"
  proof -
    have "(2::rat) powi (53 + (e' - 52)) = 2 powi 53 * 2 powi (e' - 52)"
      by (rule power_int_add) simp
    moreover have "53 + (e' - 52) = e' + 1" by simp
    ultimately show ?thesis by (simp add: u_def)
  qed
  have "(2::rat) powi (e + 1) \<le> 2 powi (e' + 1)" using e'(1) by (intro power_int_increasing) simp_all
  with hi have "\<bar>x\<bar> < 2 powi (e' + 1)" by simp
  also have "\<dots> = 2 ^ 53 * u" by (rule pw)
  finally have "\<bar>x\<bar> / u < 2 ^ 53" using upos by (simp add: pos_divide_less_eq)
  then have "\<bar>x / u\<bar> < 2 ^ 53" using upos by (simp add: abs_divide)
  then have "x / u < 2 ^ 53" "- (2 ^ 53) < x / u" by (simp_all only: abs_less_iff minus_less_iff)
  then have b: "x / u \<le> of_int (2 ^ 53)" "of_int (- (2 ^ 53)) \<le> x / u" by simp_all
  have "rne (x / u) \<le> 2 ^ 53" using b(1) by (rule rne_le)
  moreover have "- (2 ^ 53) \<le> rne (x / u)" using b(2) by (rule rne_ge)
  ultimately have "\<bar>rne (x / u)\<bar> \<le> 2 ^ 53" by simp
  then have "rat_of_int \<bar>rne (x / u)\<bar> \<le> of_int (2 ^ 53)" by (simp only: of_int_le_iff)
  then have "\<bar>rat_of_int (rne (x / u))\<bar> \<le> 2 ^ 53" by simp
  then have "\<bar>of_int (rne (x / u)) * u\<bar> \<le> 2 ^ 53 * u"
    using upos by (simp add: abs_mult mult_right_mono)
  also have "2 ^ 53 * u = 2 powi (e' + 1)" by (rule pw [symmetric])
  also have "\<dots> \<le> 2 powi 1023" using e'(2) by (intro power_int_increasing) simp_all
  finally have "\<bar>of_int (rne (x / u)) * u\<bar> < 2 ^ 1024" by simp
  with False show ?thesis
    by (simp add: round_double_def Let_def e_def [symmetric] e'_def [symmetric] u_def [symmetric])
qed

lemma is_double_bound: "is_double x \<Longrightarrow> \<bar>x\<bar> < 2 ^ 1024"
  by (cases "x = 0") (auto simp: is_double_def round_double_def Let_def split: if_splits)

section \<open>The counter of a loop\<close>

lemma counter_step: "n < 2 ^ 53 \<Longrightarrow> js_add (Fin (of_nat n)) (Fin 1) = Fin (of_nat (Suc n))"
proof -
  assume "n < 2 ^ 53"
  then have "\<bar>int n + 1\<bar> \<le> 2 ^ 53" by simp
  from round_double_int [OF this] show ?thesis by simp
qed

lemma counter_stall: "js_add (Fin (2 ^ 53)) (Fin 1) = Fin (2 ^ 53)"
proof -
  have "round_double (2 ^ 53 + 1) = Fin (of_int (2 ^ 52) * 2 powi (53 - 52))"
    by (rule round_double_normal) (simp_all add: rne_tie [where f = "2 ^ 52"])
  then show ?thesis by simp
qed

lemma counter_next:
  assumes "i \<le> 2 ^ 53"
  shows "\<exists>j\<le>2 ^ 53. js_add (Fin (of_nat i)) (Fin 1) = Fin (of_nat j)"
proof (cases "i < 2 ^ 53")
  case True
  then have "Suc i \<le> 2 ^ 53" by simp
  with counter_step [OF True] show ?thesis by blast
next
  case False
  with assms have i: "i = 2 ^ 53" by simp
  have "js_add (Fin (of_nat i)) (Fin 1) = Fin (of_nat (2 ^ 53))"
    unfolding i using counter_stall by simp
  then show ?thesis by blast
qed

section \<open>Loops that end and loops that do not\<close>

lemma counter_less_iff: "rat_of_nat i < r \<longleftrightarrow> i < nat \<lceil>r\<rceil>"
proof -
  have "i < nat \<lceil>r\<rceil> \<longleftrightarrow> int i < \<lceil>r\<rceil>" by (rule zless_nat_eq_int_zless)
  also have "\<dots> \<longleftrightarrow> of_int (int i) < r" by (rule less_ceiling_iff)
  finally show ?thesis by simp
qed

lemma for_loop_stop: "\<not> js_lt i n \<Longrightarrow> for_loop n body i s = Some s"
  by (subst for_loop.simps) simp

lemma for_loop_step:
  "js_lt i n \<Longrightarrow>
   for_loop n body i s = Option.bind (body i s) (\<lambda>s'. for_loop n body (js_add i (Fin 1)) s')"
  by (subst for_loop.simps) simp

text \<open>
  A loop with a bound up to \<open>2^53\<close> and a body that always returns ends: it is a fold
  over the values of the counter.
\<close>

lemma for_loop_Fin:
  assumes body: "\<And>i s. body i s = Some (g i s)" and c: "c \<le> 2 ^ 53"
  shows "for_loop (Fin c) body (Fin (of_nat i)) s = Some (fold g (counters i (nat \<lceil>c\<rceil>)) s)"
proof (induction "nat \<lceil>c\<rceil> - i" arbitrary: i s)
  case 0
  then have "\<not> js_lt (Fin (of_nat i)) (Fin c)" by (simp add: counter_less_iff)
  then show ?case using 0 by (simp add: for_loop_stop counters_def)
next
  case (Suc k)
  then have lt: "i < nat \<lceil>c\<rceil>" and k: "k = nat \<lceil>c\<rceil> - Suc i" by simp_all
  from lt have less: "rat_of_nat i < c" by (simp add: counter_less_iff)
  with c have "rat_of_nat i < of_nat (2 ^ 53)" by simp
  then have i: "i < 2 ^ 53" by (simp only: of_nat_less_iff)
  from less have "js_lt (Fin (of_nat i)) (Fin c)" by simp
  then have "for_loop (Fin c) body (Fin (of_nat i)) s =
      for_loop (Fin c) body (Fin (of_nat (Suc i))) (g (Fin (of_nat i)) s)"
    by (simp only: for_loop_step body counter_step [OF i] Option.bind.simps)
  also have "\<dots> = Some (fold g (counters (Suc i) (nat \<lceil>c\<rceil>)) (g (Fin (of_nat i)) s))"
    by (rule Suc.hyps(1) [OF k])
  finally show ?case using lt by (simp add: upt_conv_Cons counters_def)
qed

lemma for_loop_ends:
  assumes body: "\<And>i s. body i s = Some (g i s)" and n: "loop_ends n"
  shows "for_loop n body (Fin 0) s = Some (fold g (counters 0 (iterations n)) s)"
proof (cases n)
  case (Fin c)
  with n have "c \<le> 2 ^ 53" by simp
  from for_loop_Fin [of body g c 0 s, OF body this] show ?thesis by (simp add: Fin)
qed (use n in \<open>simp_all add: for_loop_stop counters_def\<close>)

lemma nested_loop_ends:
  assumes "loop_ends n" "loop_ends m"
  shows "for_loop n (\<lambda>x. for_loop m (\<lambda>z s. Some (f x z s)) (Fin 0)) (Fin 0) s =
         Some (fold (\<lambda>x. fold (f x) (counters 0 (iterations m))) (counters 0 (iterations n)) s)"
proof -
  have inner: "\<And>x s. for_loop m (\<lambda>z s. Some (f x z s)) (Fin 0) s =
      Some (fold (f x) (counters 0 (iterations m)) s)"
    by (rule for_loop_ends) (simp_all add: assms)
  show ?thesis by (rule for_loop_ends) (rule inner, rule assms)
qed

lemma js_lt_below: "a \<le> b \<Longrightarrow> js_lt (Fin b) n \<Longrightarrow> js_lt (Fin a) n"
  by (cases n) simp_all

lemma not_loop_ends: "\<not> loop_ends n \<Longrightarrow> js_lt (Fin (2 ^ 53)) n"
  by (cases n) simp_all

text \<open>A loop with a bound above \<open>2^53\<close> does not end, whatever its body does.\<close>

lemma for_loop_diverges_aux:
  assumes run: "for_loop n body x s = Some s'"
  shows "js_lt (Fin (2 ^ 53)) n \<and> (\<exists>i\<le>2 ^ 53. x = Fin (rat_of_nat i)) \<longrightarrow> False"
proof (rule for_loop.raw_induct
    [where P = "\<lambda>n body x s s'. js_lt (Fin (2 ^ 53)) n \<and> (\<exists>i\<le>2 ^ 53. x = Fin (rat_of_nat i)) \<longrightarrow> False",
     OF _ run])
  fix loop :: "jsnum \<Rightarrow> (jsnum \<Rightarrow> 'a \<Rightarrow> 'a option) \<Rightarrow> jsnum \<Rightarrow> 'a \<Rightarrow> 'a option"
    and n body x s s'
  assume IH: "\<And>n body x s s'. loop n body x s = Some s' \<Longrightarrow>
      js_lt (Fin (2 ^ 53)) n \<and> (\<exists>i\<le>2 ^ 53. x = Fin (rat_of_nat i)) \<longrightarrow> False"
    and unfold: "(if js_lt x n
        then Option.bind (body x s) (\<lambda>s'. loop n body (js_add x (Fin 1)) s') else Some s) = Some s'"
  show "js_lt (Fin (2 ^ 53)) n \<and> (\<exists>i\<le>2 ^ 53. x = Fin (rat_of_nat i)) \<longrightarrow> False"
  proof
    assume a: "js_lt (Fin (2 ^ 53)) n \<and> (\<exists>i\<le>2 ^ 53. x = Fin (rat_of_nat i))"
    then obtain i where i: "i \<le> 2 ^ 53" and x: "x = Fin (rat_of_nat i)" by blast
    from i have "rat_of_nat i \<le> of_nat (2 ^ 53)" by (simp only: of_nat_le_iff)
    then have "rat_of_nat i \<le> 2 ^ 53" by simp
    with a have "js_lt x n" unfolding x by (blast intro: js_lt_below)
    with unfold obtain s1 where "loop n body (js_add x (Fin 1)) s1 = Some s'"
      by (auto simp: bind_eq_Some_conv)
    moreover from counter_next [OF i] obtain j where "j \<le> 2 ^ 53"
      and "js_add x (Fin 1) = Fin (rat_of_nat j)" unfolding x by blast
    ultimately show False using IH a by blast
  qed
qed

lemma for_loop_diverges:
  assumes "\<not> loop_ends n" "i \<le> 2 ^ 53"
  shows "for_loop n body (Fin (of_nat i)) s = None"
proof (cases "for_loop n body (Fin (of_nat i)) s")
  case (Some s')
  from for_loop_diverges_aux [OF Some] not_loop_ends [OF assms(1)] assms(2) show ?thesis by blast
qed simp

lemma for_loop_diverges_0: "\<not> loop_ends n \<Longrightarrow> for_loop n body (Fin 0) s = None"
  using for_loop_diverges [of n 0 body s] by simp

lemma nested_loop_diverges:
  assumes "js_lt (Fin 0) n" "\<not> loop_ends m"
  shows "for_loop n (\<lambda>x. for_loop m (body x) (Fin 0)) (Fin 0) s = None"
  using assms by (simp add: for_loop_step for_loop_diverges_0)

lemma iterations_0: "loop_ends n \<Longrightarrow> iterations n = 0 \<longleftrightarrow> \<not> js_lt (Fin 0) n"
  by (cases n) (simp_all add: not_less)

text \<open>The nested loops of \<open>createBaseplate\<close>, for every pair of bounds.\<close>

lemma nested_loop_cases:
  "for_loop n (\<lambda>x. for_loop m (\<lambda>z s. Some (f x z s)) (Fin 0)) (Fin 0) s =
     (if loop_ends n \<and> (iterations n = 0 \<or> loop_ends m)
      then Some (fold (\<lambda>x. fold (f x) (counters 0 (iterations m))) (counters 0 (iterations n)) s)
      else None)"
proof (cases "loop_ends n")
  case False
  then show ?thesis by (simp add: for_loop_diverges_0)
next
  case n: True
  show ?thesis
  proof (cases "loop_ends m")
    case True
    with n show ?thesis by (simp add: nested_loop_ends)
  next
    case m: False
    show ?thesis
    proof (cases "iterations n = 0")
      case True
      with n have "\<not> js_lt (Fin 0) n" by (simp add: iterations_0)
      then show ?thesis using n True by (simp add: for_loop_stop counters_def)
    next
      case False
      with n have "js_lt (Fin 0) n" by (simp add: iterations_0)
      with m show ?thesis using n False by (simp add: nested_loop_diverges)
    qed
  qed
qed

lemma fold_snoc_map: "fold (\<lambda>z acc. acc @ [h z]) zs acc = acc @ map h zs"
  by (induction zs arbitrary: acc) simp_all

lemma fold_snoc_concat:
  "fold (\<lambda>x. fold (\<lambda>z acc. acc @ [h x z]) zs) xs acc = acc @ concat (map (\<lambda>x. map (h x) zs) xs)"
  by (induction xs arbitrary: acc) (simp_all add: fold_snoc_map)

lemma fold_add:
  "fold (\<lambda>z bp. add bp (h z)) zs (Object3D n m p c r ch) = Object3D n m p c r (ch @ map h zs)"
  by (induction zs arbitrary: ch) simp_all

lemma fold_add_concat:
  "fold (\<lambda>x. fold (\<lambda>z bp. add bp (h x z)) zs) xs (Object3D n m p c r ch) =
   Object3D n m p c r (ch @ concat (map (\<lambda>x. map (h x) zs) xs))"
  by (induction xs arbitrary: ch) (simp_all add: fold_add)

lemma concat_counters:
  "concat (map (\<lambda>x. map (h x) (counters 0 nz)) (counters 0 nx)) =
   grid nx nz (\<lambda>x z. h (Fin (of_nat x)) (Fin (of_nat z)))"
  by (simp add: grid_def counters_def comp_def)

text \<open>
  \<open>createBaseplate\<close> on every input: it returns exactly when the loops end, and then
  with the layout in closed form.
\<close>

lemma createBaseplate_with_cases:
  "createBaseplate_with useTileAsset sc width length' ya ta =
     (if returns width length' (default_arg ta (Fin 4))
      then Some (layout_result useTileAsset sc width length' (default_arg ya (Fin (- 4)))
                   (default_arg ta (Fin 4)))
      else None)"
proof (cases useTileAsset)
  case True
  have body: "\<And>ts ox oz y. (\<lambda>x. for_loop (tilesZ length' ts) (\<lambda>z calls.
                  let posX = js_sub (js_mul x ts) ox;
                      posZ = js_sub (js_mul z ts) oz
                  in Some (calls @ [\<lparr>url = ''./assets/base_tile.glb'', cb_posX = posX,
                                     cb_yPosition = y, cb_posZ = posZ\<rparr>])) (Fin 0)) =
      (\<lambda>x. for_loop (tilesZ length' ts) (\<lambda>z calls.
                  Some ((\<lambda>x z calls. calls @ [tile_load ts ox oz y x z]) x z calls)) (Fin 0))"
    by (simp add: Let_def tile_load_def)
  show ?thesis
    unfolding createBaseplate_with_def Let_def [of "default_arg ya (Fin (- 4))"]
      Let_def [of "default_arg ta (Fin 4)"] Let_def [of "set_name new_Group ''Baseplate''"]
      Let_def [of "tilesX _ _"] Let_def [of "tilesZ _ _"] Let_def [of "offsetX _ _"]
      Let_def [of "offsetZ _ _"] body nested_loop_cases
    using True
    by (simp add: returns_def layout_result_def Let_def fold_snoc_concat concat_counters
        new_Group_def)
next
  case False
  have body: "\<And>ts ox oz y. (\<lambda>x. for_loop (tilesZ length' ts) (\<lambda>z bp.
                   let tile = new_Mesh (BoxGeometry ts (Fin (1 / 2)) ts)
                                \<lparr>color = 0x333333, roughness = round_double (8 / 10)\<rparr>;
                       tile = position_set tile (js_sub (js_mul x ts) ox) y (js_sub (js_mul z ts) oz);
                       tile = set_receiveShadow tile True;
                       tile = set_castShadow tile False
                   in Some (add bp tile)) (Fin 0)) =
      (\<lambda>x. for_loop (tilesZ length' ts) (\<lambda>z bp.
                  Some ((\<lambda>x z bp. add bp (tile_mesh ts ox oz y x z)) x z bp)) (Fin 0))"
    by (simp add: Let_def tile_mesh_def new_Mesh_def)
  show ?thesis
    unfolding createBaseplate_with_def Let_def [of "default_arg ya (Fin (- 4))"]
      Let_def [of "default_arg ta (Fin 4)"] Let_def [of "set_name new_Group ''Baseplate''"]
      Let_def [of "tilesX _ _"] Let_def [of "tilesZ _ _"] Let_def [of "offsetX _ _"]
      Let_def [of "offsetZ _ _"] Let_def [of "BoxGeometry _ _ _"]
      Let_def [of "\<lparr>color = _, roughness = _\<rparr>"] body nested_loop_cases
    using False
    by (simp add: returns_def layout_result_def Let_def fold_add_concat concat_counters
        new_Group_def)
qed

section \<open>Exact dimensions\<close>

lemma exact_dimensionE:
  assumes "exact_dimension d"
  obtains D where "d = of_int D" "0 < D" "D \<le> 2 ^ 52"
proof
  from assms have "of_int \<lfloor>d\<rfloor> = d" unfolding exact_dimension_def by blast
  then show d: "d = of_int \<lfloor>d\<rfloor>" by (rule sym)
  from assms have "0 < d" "d \<le> 2 ^ 52" unfolding exact_dimension_def by blast+
  then have "0 < rat_of_int \<lfloor>d\<rfloor>" "rat_of_int \<lfloor>d\<rfloor> \<le> of_int (2 ^ 52)" using d by simp_all
  then show "0 < \<lfloor>d\<rfloor>" "\<lfloor>d\<rfloor> \<le> 2 ^ 52" by (simp_all only: of_int_0_less_iff of_int_le_iff)
qed

lemma round_int_eq:
  assumes "\<bar>n\<bar> \<le> 2 ^ 53" and x: "x = of_int n"
  shows "round_double x = Fin x"
  unfolding x by (rule round_double_int) fact

lemma round_half_eq:
  assumes "\<bar>m\<bar> \<le> 2 ^ 53" and x: "x = of_int m / 2"
  shows "round_double x = Fin x"
  unfolding x by (rule round_double_half) fact

text \<open>
  The quotient of two exact dimensions may be rounded, but never across an integer: its
  ceiling is the ceiling of the exact quotient.
\<close>

lemma quotient_ceiling:
  assumes W: "0 < W" "W \<le> 2 ^ 52" and T: "0 < T" "T \<le> 2 ^ 52"
  shows "\<exists>v. round_double (rat_of_int W / of_int T) = Fin v \<and> \<lceil>v\<rceil> = \<lceil>rat_of_int W / of_int T\<rceil>"
proof -
  let ?q = "rat_of_int W / of_int T"
  let ?n = "\<lceil>?q\<rceil>"
  have Tr: "0 < rat_of_int T" "1 \<le> rat_of_int T" using T by simp_all
  have Wr: "0 < rat_of_int W" "1 \<le> rat_of_int W" using W by simp_all
  have "rat_of_int W \<le> of_int (2 ^ 52)" using W(2) by (simp only: of_int_le_iff)
  then have W52: "rat_of_int W \<le> 2 ^ 52" by simp
  have "rat_of_int T \<le> of_int (2 ^ 52)" using T(2) by (simp only: of_int_le_iff)
  then have T52: "rat_of_int T \<le> 2 ^ 52" by simp
  have qpos: "0 < ?q" using Tr Wr by simp
  have "?q \<le> rat_of_int W" using Tr Wr by (simp add: pos_divide_le_eq mult_le_cancel_left1)
  with W52 have q53: "?q < 2 ^ 53" by simp
  have "(2::rat) powi (- 1022) \<le> 2 powi (- 52)" by (intro power_int_increasing) simp_all
  also have "\<dots> = 1 / 2 ^ 52" by (simp add: power_int_minus_divide)
  also have "\<dots> \<le> 1 / rat_of_int T" using Tr T52 by (simp add: frac_le)
  also have "\<dots> \<le> ?q" using Tr Wr by (simp add: divide_right_mono)
  finally have qlow: "2 powi (- 1022) \<le> ?q" .
  from round_double_bounds [OF qpos q53] obtain v where v: "round_double ?q = Fin v"
    and le: "\<And>N. ?q \<le> of_int N \<Longrightarrow> v \<le> of_int N"
    and ge: "\<And>N. of_int N \<le> ?q \<Longrightarrow> of_int N \<le> v"
    and err: "\<bar>v - ?q\<bar> \<le> ?q / 2 ^ 53"
    using qlow by blast
  have up: "v \<le> of_int ?n" by (rule le) (rule le_of_int_ceiling)
  have low: "of_int ?n - 1 < v"
  proof (cases "?q = of_int ?n")
    case True
    then have "of_int ?n \<le> v" by (intro ge) simp
    then show ?thesis by simp
  next
    case False
    have below: "of_int (?n - 1) \<le> ?q" using ceiling_correct [of ?q] by simp
    then have g: "of_int (?n - 1) \<le> v" by (rule ge)
    show ?thesis
    proof (rule ccontr)
      assume "\<not> of_int ?n - 1 < v"
      with g have veq: "v = of_int (?n - 1)" by simp
      have "rat_of_int (?n - 1) < ?q" using ceiling_correct [of ?q] by simp
      then have "rat_of_int (?n - 1) * of_int T < of_int W" using Tr by (simp add: pos_less_divide_eq)
      then have "rat_of_int ((?n - 1) * T) < of_int W" by simp
      then have "(?n - 1) * T < W" by (simp only: of_int_less_iff)
      then have "(?n - 1) * T + 1 \<le> W" by simp
      then have "rat_of_int ((?n - 1) * T + 1) \<le> of_int W" by (simp only: of_int_le_iff)
      then have "rat_of_int (?n - 1) * of_int T + 1 \<le> of_int W" by simp
      then have "(rat_of_int (?n - 1) * of_int T + 1) / of_int T \<le> ?q"
        using Tr by (intro divide_right_mono) simp_all
      moreover have "(rat_of_int (?n - 1) * of_int T + 1) / of_int T =
          rat_of_int (?n - 1) + 1 / of_int T"
        using Tr by (simp add: add_divide_distrib)
      ultimately have "rat_of_int (?n - 1) + 1 / of_int T \<le> ?q" by simp
      then have "1 / rat_of_int T \<le> \<bar>v - ?q\<bar>" unfolding veq by simp
      with err have "1 / rat_of_int T \<le> ?q / 2 ^ 53" by simp
      then have "1 / rat_of_int T * of_int T \<le> ?q / 2 ^ 53 * of_int T"
        using Tr by (intro mult_right_mono) simp_all
      then have "1 \<le> rat_of_int W / 2 ^ 53" using Tr by simp
      then have "2 ^ 53 \<le> rat_of_int W" by simp
      with W52 show False by simp
    qed
  qed
  from low up have "\<lceil>v\<rceil> = ?n" by (intro ceiling_unique) simp_all
  with v show ?thesis by blast
qed

lemma quotient_ceiling_bounds:
  assumes W: "0 < W" and T: "0 < T"
  shows "0 < \<lceil>rat_of_int W / of_int T\<rceil>" "\<lceil>rat_of_int W / of_int T\<rceil> \<le> W"
    "(\<lceil>rat_of_int W / of_int T\<rceil> - 1) * T < W"
proof -
  let ?q = "rat_of_int W / of_int T"
  have Tr: "0 < rat_of_int T" "1 \<le> rat_of_int T" using T by simp_all
  have Wr: "0 < rat_of_int W" using W by simp
  from Tr Wr have "0 < ?q" by simp
  then show "0 < \<lceil>?q\<rceil>" by (simp add: zero_less_ceiling)
  have "?q \<le> rat_of_int W" using Tr Wr by (simp add: pos_divide_le_eq mult_le_cancel_left1)
  then show "\<lceil>?q\<rceil> \<le> W" by (simp add: ceiling_le_iff)
  have "rat_of_int (\<lceil>?q\<rceil> - 1) < ?q" using ceiling_correct [of ?q] by simp
  then have "rat_of_int (\<lceil>?q\<rceil> - 1) * of_int T < of_int W" using Tr by (simp add: pos_less_divide_eq)
  then have "rat_of_int ((\<lceil>?q\<rceil> - 1) * T) < of_int W" by simp
  then show "(\<lceil>?q\<rceil> - 1) * T < W" by (simp only: of_int_less_iff)
qed

lemma tilesZ_tilesX: "tilesZ = tilesX"
  by (simp add: fun_eq_iff tilesX_def tilesZ_def)

lemma offsetZ_offsetX: "offsetZ = offsetX"
  by (simp add: fun_eq_iff offsetX_def offsetZ_def)

lemma rows_columns: "rows = columns"
  by (simp add: fun_eq_iff rows_def columns_def)

lemma columns_exact:
  assumes w: "w = rat_of_int W" "0 < W" and t: "t = rat_of_int T" "0 < T"
  shows "rat_of_nat (columns w t) = of_int \<lceil>w / t\<rceil>" "0 < columns w t"
  using quotient_ceiling_bounds(1) [OF w(2) t(2)] by (simp_all add: columns_def w(1) t(1))

lemma tilesX_exact:
  assumes "exact_dimension w" "exact_dimension t"
  shows "tilesX (Fin w) (Fin t) = Fin (of_nat (columns w t))"
proof -
  from assms(1) obtain W where w: "w = of_int W" "0 < W" "W \<le> 2 ^ 52" by (rule exact_dimensionE)
  from assms(2) obtain T where t: "t = of_int T" "0 < T" "T \<le> 2 ^ 52" by (rule exact_dimensionE)
  from quotient_ceiling [OF w(2,3) t(2,3)] obtain v
    where "round_double (w / t) = Fin v" "\<lceil>v\<rceil> = \<lceil>w / t\<rceil>" unfolding w(1) t(1) by blast
  moreover have "t \<noteq> 0" using t by simp
  ultimately show ?thesis
    by (simp add: tilesX_def columns_exact(1) [OF w(1,2) t(1,2)])
qed

lemma offsetX_exact:
  assumes "exact_dimension w" "exact_dimension t"
  shows "offsetX (Fin (of_nat (columns w t))) (Fin t) = Fin (centre_offset (columns w t) t)"
proof -
  from assms(1) obtain W where w: "w = of_int W" "0 < W" "W \<le> 2 ^ 52" by (rule exact_dimensionE)
  from assms(2) obtain T where t: "t = of_int T" "0 < T" "T \<le> 2 ^ 52" by (rule exact_dimensionE)
  define C where "C = \<lceil>w / t\<rceil>"
  from quotient_ceiling_bounds [OF w(2) t(2)]
  have C: "0 < C" "C \<le> W" "(C - 1) * T < W" unfolding C_def w(1) t(1) by simp_all
  have c: "rat_of_nat (columns w t) = of_int C"
    unfolding C_def by (rule columns_exact(1) [OF w(1,2) t(1,2)])
  have W': "W \<le> 4503599627370496" and T': "T \<le> 4503599627370496" using w(3) t(3) by simp_all
  have split: "C * T = (C - 1) * T + T" by (simp add: algebra_simps)
  have nn: "0 \<le> (C - 1) * T" using C(1) t(2) by (intro mult_nonneg_nonneg) simp_all
  have "C * T \<le> 9007199254740992" using C(3) W' T' unfolding split by linarith
  moreover have "0 \<le> C * T" using nn t(2) unfolding split by linarith
  ultimately have CT: "C * T \<le> 2 ^ 53" "0 \<le> C * T" "0 \<le> (C - 1) * T" using nn by simp_all
  have CT1: "\<bar>(C - 1) * T\<bar> \<le> 2 ^ 53" using nn C(3) W' by simp
  have m1: "round_double (of_int C * t) = Fin (of_int C * t)"
    by (rule round_int_eq [where n = "C * T"]) (use CT in \<open>simp_all add: t(1)\<close>)
  have m2: "round_double (of_int C * t / 2) = Fin (of_int C * t / 2)"
    by (rule round_half_eq [where m = "C * T"]) (use CT in \<open>simp_all add: t(1)\<close>)
  have m3: "round_double (t / 2) = Fin (t / 2)"
    by (rule round_half_eq [where m = T]) (use t in simp_all)
  have m4: "round_double (of_int C * t / 2 - t / 2) = Fin (of_int C * t / 2 - t / 2)"
    by (rule round_half_eq [OF CT1]) (simp add: t(1) algebra_simps diff_divide_distrib)
  show ?thesis
    by (simp add: offsetX_def c m1 m2 m3 m4 centre_offset_def)
qed

lemma position_exact:
  assumes "exact_dimension w" "exact_dimension t" and x: "x < columns w t"
  shows "js_sub (js_mul (Fin (of_nat x)) (Fin t)) (Fin (centre_offset (columns w t) t)) =
         Fin (of_nat x * t - centre_offset (columns w t) t)"
proof -
  from assms(1) obtain W where w: "w = of_int W" "0 < W" "W \<le> 2 ^ 52" by (rule exact_dimensionE)
  from assms(2) obtain T where t: "t = of_int T" "0 < T" "T \<le> 2 ^ 52" by (rule exact_dimensionE)
  define C where "C = \<lceil>w / t\<rceil>"
  from quotient_ceiling_bounds [OF w(2) t(2)]
  have C: "0 < C" "C \<le> W" "(C - 1) * T < W" unfolding C_def w(1) t(1) by simp_all
  have c: "rat_of_nat (columns w t) = of_int C"
    unfolding C_def by (rule columns_exact(1) [OF w(1,2) t(1,2)])
  from x have "int x < C" unfolding C_def columns_def by simp
  then have x1: "int x \<le> C - 1" by simp
  from x1 t(2) have xT: "int x * T \<le> (C - 1) * T" by (intro mult_right_mono) simp_all
  have xT0: "0 \<le> int x * T" using t(2) by simp
  have W2: "W \<le> 4503599627370496" using w(3) by simp
  from xT xT0 C(3) W2 have "\<bar>int x * T\<bar> \<le> 9007199254740992" by linarith
  then have xb: "\<bar>int x * T\<bar> \<le> 2 ^ 53" by simp
  have m1: "round_double (of_nat x * t) = Fin (of_nat x * t)"
    by (rule round_int_eq [OF xb]) (simp add: t(1))
  have up: "(2 * int x - (C - 1)) * T \<le> (C - 1) * T"
    using x1 t(2) by (intro mult_right_mono) simp_all
  have "(- (C - 1)) * T \<le> (2 * int x - (C - 1)) * T"
    using t(2) by (intro mult_right_mono) simp_all
  then have low: "- ((C - 1) * T) \<le> (2 * int x - (C - 1)) * T" by (simp only: mult_minus_left)
  have W': "W \<le> 4503599627370496" using w(3) by simp
  from up low C(3) W' have "\<bar>(2 * int x - (C - 1)) * T\<bar> \<le> 9007199254740992" by linarith
  then have b: "\<bar>(2 * int x - (C - 1)) * T\<bar> \<le> 2 ^ 53" by simp
  have m2: "round_double (of_nat x * t - centre_offset (columns w t) t) =
      Fin (of_nat x * t - centre_offset (columns w t) t)"
  proof (rule round_half_eq [OF b])
    have "of_nat x * t - centre_offset (columns w t) t = of_nat x * t - (of_int C * t / 2 - t / 2)"
      by (simp only: centre_offset_def c)
    also have "\<dots> = rat_of_int ((2 * int x - (C - 1)) * T) / 2"
      by (simp add: t(1) algebra_simps diff_divide_distrib add_divide_distrib)
    finally show "of_nat x * t - centre_offset (columns w t) t =
        rat_of_int ((2 * int x - (C - 1)) * T) / 2" .
  qed
  show ?thesis by (simp add: m1 m2)
qed

lemma exact_ends:
  assumes "exact_dimension w" "exact_dimension t"
  shows "loop_ends (Fin (of_nat (columns w t)))" "iterations (Fin (of_nat (columns w t))) = columns w t"
proof -
  from assms(1) obtain W where w: "w = of_int W" "0 < W" "W \<le> 2 ^ 52" by (rule exact_dimensionE)
  from assms(2) obtain T where t: "t = of_int T" "0 < T" "T \<le> 2 ^ 52" by (rule exact_dimensionE)
  define C where "C = \<lceil>w / t\<rceil>"
  from quotient_ceiling_bounds(2) [OF w(2) t(2)] have "C \<le> W" unfolding C_def w(1) t(1) .
  moreover have "W \<le> 4503599627370496" using w(3) by simp
  ultimately have "C \<le> 9007199254740992" by linarith
  then have "C \<le> 2 ^ 53" by simp
  then have "rat_of_int \<lceil>w / t\<rceil> \<le> of_int (2 ^ 53)" unfolding C_def by (simp only: of_int_le_iff)
  then show "loop_ends (Fin (of_nat (columns w t)))"
    by (simp add: columns_exact(1) [OF w(1,2) t(1,2)])
  show "iterations (Fin (of_nat (columns w t))) = columns w t" by simp
qed

lemma grid_cong:
  assumes "\<And>x z. x < nx \<Longrightarrow> z < nz \<Longrightarrow> h x z = h' x z"
  shows "grid nx nz h = grid nx nz h'"
proof -
  have "map (\<lambda>x. map (\<lambda>z. h x z) [0..<nz]) [0..<nx] = map (\<lambda>x. map (\<lambda>z. h' x z) [0..<nz]) [0..<nx]"
    by (intro map_cong refl) (simp add: assms)
  then show ?thesis by (simp only: grid_def)
qed

lemma map_grid: "map f (grid nx nz h) = grid nx nz (\<lambda>x z. f (h x z))"
  by (simp add: grid_def map_concat comp_def)

lemma placements_layout_result:
  "placements (layout_result useTileAsset sc width length' y ts) =
     grid (iterations (tilesX width ts)) (iterations (tilesZ length' ts))
       (\<lambda>x z. \<lparr>vx = js_sub (js_mul (Fin (of_nat x)) ts) (offsetX (tilesX width ts) ts),
                vy = y,
                vz = js_sub (js_mul (Fin (of_nat z)) ts) (offsetZ (tilesZ length' ts) ts)\<rparr>)"
  by (simp add: placements_def layout_result_def Let_def map_grid load_position_def
      tile_load_def tile_mesh_def)

text \<open>On exact dimensions both modes return, and their placements are the layout.\<close>

lemma placements_createBaseplate:
  assumes "exact_dimension w" "exact_dimension l" "exact_dimension t"
    and ta: "default_arg ta (Fin 4) = Fin t"
  shows "\<exists>res. createBaseplate_with useTileAsset sc (Fin w) (Fin l) ya ta = Some res \<and>
     placements res = computeTilePlacements w l t (default_arg ya (Fin (- 4)))"
proof -
  have tx: "tilesX (Fin w) (Fin t) = Fin (of_nat (columns w t))"
    and tz: "tilesZ (Fin l) (Fin t) = Fin (of_nat (rows l t))"
    using assms by (simp_all add: tilesX_exact tilesZ_tilesX rows_columns)
  have ret: "returns (Fin w) (Fin l) (Fin t)"
    using exact_ends(1) [OF assms(1,3)] exact_ends(1) [OF assms(2,3)]
    by (simp add: returns_def tx tz rows_columns del: loop_ends.simps)
  have ox: "offsetX (Fin (of_nat (columns w t))) (Fin t) = Fin (centre_offset (columns w t) t)"
    and oz: "offsetZ (Fin (of_nat (rows l t))) (Fin t) = Fin (centre_offset (rows l t) t)"
    using assms by (simp_all only: offsetX_exact offsetZ_offsetX rows_columns)
  have it: "iterations (Fin (of_nat (columns w t))) = columns w t"
    "iterations (Fin (of_nat (rows l t))) = rows l t" by simp_all
  have "placements (layout_result useTileAsset sc (Fin w) (Fin l) (default_arg ya (Fin (- 4))) (Fin t))
      = computeTilePlacements w l t (default_arg ya (Fin (- 4)))"
    unfolding placements_layout_result computeTilePlacements_def tx tz ox oz it
  proof (rule grid_cong)
    fix x z assume "x < columns w t" "z < rows l t"
    then show "\<lparr>vx = js_sub (js_mul (Fin (of_nat x)) (Fin t)) (Fin (centre_offset (columns w t) t)),
                vy = default_arg ya (Fin (- 4)),
                vz = js_sub (js_mul (Fin (of_nat z)) (Fin t)) (Fin (centre_offset (rows l t) t))\<rparr> =
               \<lparr>vx = Fin (of_nat x * t - centre_offset (columns w t) t),
                vy = default_arg ya (Fin (- 4)),
                vz = Fin (of_nat z * t - centre_offset (rows l t) t)\<rparr>"
      using assms by (simp only: position_exact rows_columns)
  qed
  with ret show ?thesis by (simp add: createBaseplate_with_cases ta)
qed

section \<open>The coordinates of the grid\<close>

lemma ceiling_quotient_pos: "0 < (w::rat) \<Longrightarrow> 0 < t \<Longrightarrow> 0 < \<lceil>w / t\<rceil>"
  by (simp add: zero_less_ceiling)

lemma length_grid: "length (grid nx nz h) = nx * nz"
  by (induction nx) (simp_all add: grid_def)

lemma set_grid_x: "0 < nz \<Longrightarrow> set (grid nx nz (\<lambda>x z. g x)) = g ` {..<nx}"
  by (auto simp: grid_def)

lemma set_grid_z: "0 < nx \<Longrightarrow> set (grid nx nz (\<lambda>x z. g z)) = g ` {..<nz}"
  by (auto simp: grid_def)

lemma columns_pos: "0 < w \<Longrightarrow> 0 < t \<Longrightarrow> 0 < columns w t"
  using ceiling_quotient_pos [of w t] by (simp add: columns_def)

lemma rows_pos: "0 < l \<Longrightarrow> 0 < t \<Longrightarrow> 0 < rows l t"
  using ceiling_quotient_pos [of l t] by (simp add: rows_def)

lemma length_computeTilePlacements:
  "length (computeTilePlacements w l t y) = columns w t * rows l t"
  by (simp add: computeTilePlacements_def length_grid)


lemma finite_axis: "finite (axis_coordinates n t)"
  by (simp add: axis_coordinates_def)


lemma Min_axis:
  assumes n: "0 < n" and t: "0 < t"
  shows "Min (axis_coordinates n t) = - centre_offset n t"
proof (rule Min_eqI)
  show "finite (axis_coordinates n t)" by (rule finite_axis)
  show "- centre_offset n t \<in> axis_coordinates n t"
    unfolding axis_coordinates_def using n by (intro image_eqI [where x = 0]) simp_all
  fix y assume "y \<in> axis_coordinates n t"
  then obtain i where "y = of_nat i * t - centre_offset n t" by (auto simp: axis_coordinates_def)
  moreover have "0 \<le> of_nat i * t" using t by simp
  ultimately show "- centre_offset n t \<le> y" by simp
qed

lemma Max_axis:
  assumes n: "0 < n" and t: "0 < t"
  shows "Max (axis_coordinates n t) = centre_offset n t"
proof (rule Max_eqI)
  show "finite (axis_coordinates n t)" by (rule finite_axis)
  have last: "of_nat (n - 1) * t - centre_offset n t = centre_offset n t"
    using n by (simp add: centre_offset_def of_nat_diff algebra_simps)
  show "centre_offset n t \<in> axis_coordinates n t"
    unfolding axis_coordinates_def using n last by (intro image_eqI [where x = "n - 1"]) simp_all
  fix y assume "y \<in> axis_coordinates n t"
  then obtain i where i: "i < n" and y: "y = of_nat i * t - centre_offset n t"
    by (auto simp: axis_coordinates_def)
  from i have "i \<le> n - 1" by simp
  then have "rat_of_nat i \<le> of_nat (n - 1)" by (simp only: of_nat_le_iff)
  then have "of_nat i * t \<le> of_nat (n - 1) * t" using t by (simp only: mult_le_cancel_right_pos)
  with y last show "y \<le> centre_offset n t" by simp
qed


lemma vx_computeTilePlacements:
  "0 < rows l t \<Longrightarrow>
   vx ` set (computeTilePlacements w l t y) = Fin ` axis_coordinates (columns w t) t"
  by (simp add: computeTilePlacements_def map_grid set_grid_x axis_coordinates_def image_image
      flip: set_map)

lemma vz_computeTilePlacements:
  "0 < columns w t \<Longrightarrow>
   vz ` set (computeTilePlacements w l t y) = Fin ` axis_coordinates (rows l t) t"
  by (simp add: computeTilePlacements_def map_grid set_grid_z axis_coordinates_def image_image
      flip: set_map)

lemma columns_100_4: "columns 100 4 = 25"
  by (simp add: columns_def)

lemma rows_100_4: "rows 100 4 = 25"
  by (simp add: rows_def)

lemma axis_25_4: "Fin ` axis_coordinates 25 4 = (\<lambda>k. Fin (- 48 + 4 * of_nat k)) ` {..<25}"
  by (simp add: axis_coordinates_def centre_offset_def image_image algebra_simps)

lemma position_position_set [simp]: "position (position_set obj x y z) = \<lparr>vx = x, vy = y, vz = z\<rparr>"
  by (cases obj) simp

lemma position_setShadow [simp]: "position (setShadow obj c r) = position obj"
  by (cases obj) simp

lemma children_add [simp]: "children (add bp tile) = children bp @ [tile]"
  by (cases bp) simp

lemma tile_onLoad_position:
  "position (last (children (tile_onLoad call gltf_scene bp))) = load_position call"
  by (simp add: tile_onLoad_def load_position_def Let_def)

lemma vy_computeTilePlacements: "p \<in> set (computeTilePlacements w l t y) \<Longrightarrow> vy p = y"
  by (auto simp: computeTilePlacements_def grid_def)

lemma name_add [simp]: "name (add bp tile) = name bp"
  by (cases bp) simp

section \<open>Some binary64 numbers\<close>



lemma literal_0_7: "round_double (7 / 10) = Fin d_0_7"
proof -
  have "round_double (7 / 10) = Fin (of_int 6305039478318694 * 2 powi (- 1 - 52))"
    by (rule round_double_normal) (simp_all add: rne_unique)
  then show ?thesis by (simp add: d_0_7_def)
qed

lemma div_63_0_7: "js_div (Fin 63) (Fin d_0_7) = Fin 90"
proof -
  have "round_double (63 / d_0_7) = Fin (of_int 6333186975989760 * 2 powi (6 - 52))"
    by (rule round_double_normal) (simp_all add: rne_unique d_0_7_def)
  then show ?thesis by (simp add: d_0_7_def)
qed











lemma round_double_1: "round_double 1 = Fin 1"
  using round_double_int [of 1] by simp

lemma round_double_0: "round_double 0 = Fin 0"
  by (simp add: round_double_def)

lemma round_double_2_54: "round_double (2 ^ 54) = Fin (2 ^ 54)"
  using round_double_dyadic [of 1 54] by simp

lemma round_double_min: "round_double (1 / 2 ^ 1074) = Fin (1 / 2 ^ 1074)"
  using round_double_dyadic [of 1 "- 1074"] by (simp add: power_int_minus_divide)

lemma underflow_quarter: "round_double (1 / 2 ^ 1074 / 4) = Fin 0"
proof -
  have "round_double (1 / 2 ^ 1074 / 4) = Fin (of_int 0 * 2 powi (- 1074))"
    by (rule round_double_subnormal) (simp_all add: rne_unique power_int_minus_divide)
  then show ?thesis by simp
qed

lemma underflow_self: "js_div (Fin (1 / 2 ^ 1074)) (Fin (1 / 2 ^ 1074)) = Fin 1"
  by (simp add: round_double_1)

section \<open>Results without tiles\<close>

lemma grid_empty [simp]: "grid 0 nz h = []" "grid nx 0 h = []"
  by (simp_all add: grid_def)

lemma layout_result_empty:
  assumes "iterations (tilesX width ts) = 0 \<or> iterations (tilesZ length' ts) = 0"
  shows "layout_result useTileAsset sc width length' y ts =
    \<lparr>baseplate = Object3D ''Baseplate'' None origin False False [],
     scene_after = scene_add sc (Object3D ''Baseplate'' None origin False False []),
     loads = []\<rparr>"
  using assms by (auto simp: layout_result_def Let_def)

lemma tilesX_invalid:
  assumes t: "0 < t" and d: "invalid_dimension d"
  shows "iterations (tilesX d (Fin t)) = 0" "loop_ends (tilesX d (Fin t))"
proof -
  have "iterations (tilesX d (Fin t)) = 0 \<and> loop_ends (tilesX d (Fin t))"
  proof (cases d)
    case (Fin r)
    with d have "r \<le> 0" by (simp add: invalid_dimension_def not_less)
    with t have "r / t \<le> 0" by (simp add: divide_le_0_iff)
    from round_double_nonpos [OF this] show ?thesis
    proof (rule disjE)
      assume "round_double (r / t) = NegInf"
      with t show ?thesis by (simp add: tilesX_def Fin)
    next
      assume "\<exists>v\<le>0. round_double (r / t) = Fin v"
      then obtain v where v: "v \<le> 0" "round_double (r / t) = Fin v" by blast
      from v(1) have c: "\<lceil>v\<rceil> \<le> 0" by (simp add: ceiling_le_zero)
      then have "rat_of_int \<lceil>v\<rceil> \<le> 0" by (simp only: of_int_le_0_iff)
      then have "rat_of_int \<lceil>v\<rceil> \<le> 2 ^ 53" by (rule order_trans) simp
      with c show ?thesis using t v(2) by (simp add: tilesX_def Fin)
    qed
  qed (use t d in \<open>simp_all add: tilesX_def invalid_dimension_def\<close>)
  then show "iterations (tilesX d (Fin t)) = 0" "loop_ends (tilesX d (Fin t))" by simp_all
qed

text \<open>An invalid dimension is not rejected: the function returns a baseplate without tiles.\<close>

lemma createBaseplate_invalid:
  assumes ta: "default_arg ta (Fin 4) = Fin t" and t: "0 < t"
    and inv: "invalid_dimension width \<or>
              (invalid_dimension length' \<and> loop_ends (tilesX width (Fin t)))"
  shows "createBaseplate_with useTileAsset sc width length' ya ta =
    Some \<lparr>baseplate = Object3D ''Baseplate'' None origin False False [],
          scene_after = scene_add sc (Object3D ''Baseplate'' None origin False False []),
          loads = []\<rparr>"
proof -
  from inv have "returns width length' (Fin t) \<and>
      (iterations (tilesX width (Fin t)) = 0 \<or> iterations (tilesZ length' (Fin t)) = 0)"
    using tilesX_invalid [OF t, of width] tilesX_invalid [OF t, of length']
    by (auto simp: returns_def tilesZ_tilesX)
  then show ?thesis
    by (simp add: createBaseplate_with_cases ta layout_result_empty)
qed

section \<open>The listener of the button\<close>

lemma round_double_m5: "round_double (- 5) = Fin (- 5)"
  using round_double_int [of "- 5"] by simp

lemma round_double_100: "round_double 100 = Fin 100"
  using round_double_int [of 100] by simp

lemma parseInt_minus_5: "parseInt (code_units ''-5'') = Fin (- 5)"
  by (simp add: parseInt_def code_units_def is_space_def digit_value_def round_double_m5)

lemma parseInt_100: "parseInt (code_units ''100'') = Fin 100"
  by (simp add: parseInt_def code_units_def is_space_def digit_value_def round_double_100)

lemma parseInt_empty: "parseInt [] = NaN"
  by (simp add: parseInt_def)

lemma generateButton_click_unfold:
  "generateButton_click wv lv =
     map_option (\<lambda>res. (scene_after res, loads res))
       (createBaseplate initial_scene (parseInt wv) (parseInt lv) (Some (Fin (- 4))) None)"
  by (simp add: generateButton_click_def init_def setupEnvironment_def Let_def initial_scene_def
      new_Scene_def new_Light_def scene_add_def origin_def)

section \<open>What a call that returns has built\<close>

lemma createBaseplate_with_Some:
  assumes "createBaseplate_with useTileAsset sc width length' ya ta = Some res"
  shows "returns width length' (default_arg ta (Fin 4))"
    and "res = layout_result useTileAsset sc width length' (default_arg ya (Fin (- 4)))
                 (default_arg ta (Fin 4))"
  using assms by (simp_all add: createBaseplate_with_cases split: if_splits)

lemma placements_scene_independent:
  "map_option placements (createBaseplate_with useTileAsset sc1 width length' ya ta) =
   map_option placements (createBaseplate_with useTileAsset sc2 width length' ya ta)"
  by (simp add: createBaseplate_with_cases placements_layout_result)

lemma placements_mode_independent:
  "map_option placements (createBaseplate_with True sc width length' ya ta) =
   map_option placements (createBaseplate_with False sc width length' ya ta)"
  by (simp add: createBaseplate_with_cases placements_layout_result)

lemma length_placements_layout_result:
  "length (placements (layout_result useTileAsset sc width length' y ts)) =
     iterations (tilesX width ts) * iterations (tilesZ length' ts)"
  by (simp add: placements_layout_result length_grid)

lemma layout_result_asset:
  "children (baseplate (layout_result True sc width length' y ts)) = []"
  "loads (layout_result True sc width length' y ts) =
     grid (iterations (tilesX width ts)) (iterations (tilesZ length' ts))
       (\<lambda>x z. tile_load ts (offsetX (tilesX width ts) ts) (offsetZ (tilesZ length' ts) ts) y
                 (Fin (of_nat x)) (Fin (of_nat z)))"
  by (simp_all add: layout_result_def Let_def)

lemma layout_result_geometry:
  "loads (layout_result False sc width length' y ts) = []"
  "children (baseplate (layout_result False sc width length' y ts)) =
     grid (iterations (tilesX width ts)) (iterations (tilesZ length' ts))
       (\<lambda>x z. tile_mesh ts (offsetX (tilesX width ts) ts) (offsetZ (tilesZ length' ts) ts) y
                 (Fin (of_nat x)) (Fin (of_nat z)))"
  by (simp_all add: layout_result_def Let_def)

lemma layout_result_scene:
  "scene_after (layout_result useTileAsset sc width length' y ts) =
     sc\<lparr>scene_children := scene_children sc @
          [baseplate (layout_result useTileAsset sc width length' y ts)]\<rparr>"
  "name (baseplate (layout_result useTileAsset sc width length' y ts)) = ''Baseplate''"
  by (simp_all add: layout_result_def Let_def scene_add_def)

lemma set_grid: "set (grid nx nz h) = {h x z |x z. x < nx \<and> z < nz}"
  by (fastforce simp: grid_def)


lemma tilesX_exact_ceiling:
  assumes "exact_dimension w" "exact_dimension t"
  shows "tilesX (Fin w) (Fin t) = Fin (of_int \<lceil>w / t\<rceil>)"
proof -
  from assms(1) obtain W where w: "w = of_int W" "0 < W" "W \<le> 2 ^ 52" by (rule exact_dimensionE)
  from assms(2) obtain T where t: "t = of_int T" "0 < T" "T \<le> 2 ^ 52" by (rule exact_dimensionE)
  show ?thesis
    by (simp only: tilesX_exact [OF assms] columns_exact(1) [OF w(1,2) t(1,2)])
qed

lemma exact_dimension_pos: "exact_dimension d \<Longrightarrow> 0 < d"
  by (simp add: exact_dimension_def)


text \<open>A quotient below 1 that is not rounded to 0 has the ceiling 1.\<close>

lemma tilesX_small:
  assumes "0 < w" "w < t" and nz: "js_div (Fin w) (Fin t) \<noteq> Fin 0"
  shows "tilesX (Fin w) (Fin t) = Fin 1"
proof -
  from assms have t: "0 < t" by simp
  with assms have q: "0 < w / t" "w / t < 1" by simp_all
  then have "w / t < 2 ^ 53" by (rule_tac order_less_trans [where y = 1]) simp_all
  from round_double_bounds [OF q(1) this] obtain v where v: "round_double (w / t) = Fin v"
    and up: "\<And>N. w / t \<le> of_int N \<Longrightarrow> v \<le> of_int N"
    and lo: "\<And>N. of_int N \<le> w / t \<Longrightarrow> of_int N \<le> v" by blast
  from up [of 1] q have "v \<le> 1" by simp
  moreover from lo [of 0] q have "0 \<le> v" by simp
  moreover from nz v t have "v \<noteq> 0" by simp
  ultimately have "\<lceil>v\<rceil> = 1" by (intro ceiling_unique) simp_all
  with v t show ?thesis by (simp add: tilesX_def)
qed

lemma quotient_not_zero:
  assumes t: "0 < t" and q: "2 powi (- 1022) \<le> w / t" "w / t < 2 ^ 53"
  shows "js_div (Fin w) (Fin t) \<noteq> Fin 0"
proof -
  have p: "(0::rat) < 2 powi (- 1022)" by simp
  from p q(1) have pos: "0 < w / t" by (rule less_le_trans)
  from round_double_bounds [OF pos q(2)] q(1) obtain v where v: "round_double (w / t) = Fin v"
    and err: "\<bar>v - w / t\<bar> \<le> w / t / 2 ^ 53" by blast
  have "w / t / 2 ^ 53 < w / t" using pos by simp
  with err have "0 < v" by linarith
  with v t show ?thesis by simp
qed

lemma offsetX_one:
  assumes "is_double t"
  shows "offsetX (Fin 1) (Fin t) = Fin 0"
    and "js_sub (js_mul (Fin 0) (Fin t)) (Fin 0) = Fin 0"
proof -
  from assms have m: "round_double t = Fin t" by (simp add: is_double_def)
  from is_double_bound [OF assms] have "\<bar>t / 2\<bar> < 2 ^ 1023" by simp
  from round_double_finite [OF this] obtain h where h: "round_double (t / 2) = Fin h" by blast
  show "offsetX (Fin 1) (Fin t) = Fin 0"
    by (simp add: offsetX_def m h round_double_0)
  show "js_sub (js_mul (Fin 0) (Fin t)) (Fin 0) = Fin 0"
    by (simp add: round_double_0)
qed

lemma is_double_4: "is_double 4"
  using round_double_int [of 4] by (simp add: is_double_def)

lemma columns_8_4: "columns 8 4 = 2"
  by (simp add: columns_def)

lemma columns_5_4: "columns 5 4 = 2"
proof -
  have "\<lceil>5 / 4 :: rat\<rceil> = 2" by (rule ceiling_unique) simp_all
  then show ?thesis by (simp add: columns_def)
qed

lemma columns_9_4: "columns 9 4 = 3"
proof -
  have "\<lceil>9 / 4 :: rat\<rceil> = 3" by (rule ceiling_unique) simp_all
  then show ?thesis by (simp add: columns_def)
qed

lemma columns_21_4: "columns 21 4 = 6"
proof -
  have "\<lceil>21 / 4 :: rat\<rceil> = 6" by (rule ceiling_unique) simp_all
  then show ?thesis by (simp add: columns_def)
qed

lemma columns_4_4: "columns 4 4 = 1"
  by (simp add: columns_def)

lemma exact_dimension_numeral [simp]:
  "exact_dimension (numeral k) = (numeral k \<le> (2::rat) ^ 52)"
proof -
  have "rat_of_int \<lfloor>numeral k :: rat\<rfloor> = numeral k" by simp
  then show ?thesis unfolding exact_dimension_def by simp
qed

lemma tilesX_2_56: "tilesX (Fin (2 ^ 56)) (Fin 4) = Fin (2 ^ 54)"
  using round_double_2_54 by (simp add: tilesX_def)

lemma tilesX_63_0_7: "tilesX (Fin 63) (Fin d_0_7) = Fin 90"
  by (simp add: tilesX_def div_63_0_7 del: js_div.simps)






lemma tilesX_min_4: "tilesX (Fin (1 / 2 ^ 1074)) (Fin 4) = Fin 0"
  using underflow_quarter by (simp add: tilesX_def)

lemma layout_result_vy:
  "p \<in> set (placements (layout_result useTileAsset sc width length' y ts)) \<Longrightarrow> vy p = y"
  "tile \<in> set (children (baseplate (layout_result useTileAsset sc width length' y ts))) \<Longrightarrow>
     vy (position tile) = y"
  "call \<in> set (loads (layout_result useTileAsset sc width length' y ts)) \<Longrightarrow>
     cb_yPosition call = y \<and> url call = ''./assets/base_tile.glb''"
  by (cases useTileAsset;
      fastforce simp: placements_def layout_result_def Let_def set_grid tile_mesh_def
        tile_load_def load_position_def)+

lemma tile_onLoad_children:
  "children (tile_onLoad call gltf_scene bp) =
     children bp @ [setShadow (position_set gltf_scene (cb_posX call) (cb_yPosition call)
                                 (cb_posZ call)) False True]"
  by (simp add: tile_onLoad_def Let_def children_add)

lemma tilesX_4_4: "tilesX (Fin 4) (Fin 4) = Fin 1"
  using tilesX_exact [of 4 4] by (simp add: columns_4_4)

lemma tilesX_9_4: "tilesX (Fin 9) (Fin 4) = Fin 3"
  using tilesX_exact [of 9 4] by (simp add: columns_9_4)

lemma tilesX_5_4: "tilesX (Fin 5) (Fin 4) = Fin 2"
  using tilesX_exact [of 5 4] by (simp add: columns_5_4)

lemma createBaseplate_4_4:
  "createBaseplate_with True sc (Fin 4) (Fin 4) None None =
     Some \<lparr>baseplate = Object3D ''Baseplate'' None origin False False [],
           scene_after = scene_add sc (Object3D ''Baseplate'' None origin False False []),
           loads = [\<lparr>url = ''./assets/base_tile.glb'', cb_posX = Fin 0,
                     cb_yPosition = Fin (- 4), cb_posZ = Fin 0\<rparr>]\<rparr>"
  "createBaseplate_with False sc (Fin 4) (Fin 4) None None =
     Some \<lparr>baseplate = Object3D ''Baseplate'' None origin False False
              [Object3D [] (Some (BoxGeometry (Fin 4) (Fin (1 / 2)) (Fin 4),
                                  \<lparr>color = 0x333333, roughness = round_double (8 / 10)\<rparr>))
                 \<lparr>vx = Fin 0, vy = Fin (- 4), vz = Fin 0\<rparr> False True []],
           scene_after = scene_add sc (Object3D ''Baseplate'' None origin False False
              [Object3D [] (Some (BoxGeometry (Fin 4) (Fin (1 / 2)) (Fin 4),
                                  \<lparr>color = 0x333333, roughness = round_double (8 / 10)\<rparr>))
                 \<lparr>vx = Fin 0, vy = Fin (- 4), vz = Fin 0\<rparr> False True []]),
           loads = []\<rparr>"
  using offsetX_one [OF is_double_4]
  by (simp_all add: createBaseplate_with_cases returns_def tilesX_4_4 tilesZ_tilesX
      layout_result_def Let_def grid_def offsetZ_offsetX tile_load_def tile_mesh_def
      del: js_mul.simps js_sub.simps)

lemma round_double_1e17: "round_double 100000000000000000 = Fin 100000000000000000"
  using round_double_dyadic [of 762939453125 17] by simp

lemma round_double_25e15: "round_double 25000000000000000 = Fin 25000000000000000"
  using round_double_dyadic [of 762939453125 15] by simp

lemma parseInt_1e17: "parseInt (code_units ''100000000000000000'') = Fin 100000000000000000"
  by (simp add: parseInt_def code_units_def is_space_def digit_value_def round_double_1e17)

lemma tilesX_1e17: "tilesX (Fin 100000000000000000) (Fin 4) = Fin 25000000000000000"
  by (simp add: tilesX_def round_double_25e15)


section \<open>The claims\<close>

text \<open>
  Claim C1 fails as it is stated. The numbers of the program are binary64 numbers: the
  quotient \<open>width / tileSize\<close> is rounded before \<open>Math.ceil\<close> sees it, and the counters of
  the loops stop advancing at \<open>2^53\<close>. With width \<open>2^56\<close>, length 4 and the default tile
  size the bound of the outer loop is \<open>2^54\<close>: the counter never reaches it and
  \<open>createBaseplate\<close> does not return, so it produces no placement at all. With width 63
  and tile size 0.7 (the number that the literal \<open>0.7\<close> denotes) the quotient is rounded to
  90, so there are 90 columns, while the ceiling of the exact quotient is 91.
\<close>

theorem createBaseplate_never_returns:
  "createBaseplate new_Scene (Fin (2 ^ 56)) (Fin 4) None None = None \<and>
   tilesX (Fin (2 ^ 56)) (Fin 4) = Fin (2 ^ 54) \<and>
   round_double (7 / 10) = Fin d_0_7 \<and>
   tilesX (Fin 63) (Fin d_0_7) = Fin 90 \<and>
   \<lceil>63 / d_0_7\<rceil> = 91"
proof -
  have "\<not> returns (Fin (2 ^ 56)) (Fin 4) (Fin 4)"
    unfolding returns_def tilesX_2_56 by simp
  then have "createBaseplate new_Scene (Fin (2 ^ 56)) (Fin 4) None None = None"
    by (simp add: createBaseplate_def createBaseplate_with_cases)
  moreover have "\<lceil>63 / d_0_7\<rceil> = 91"
    by (rule ceiling_unique) (simp_all add: d_0_7_def)
  ultimately show ?thesis
    by (simp only: tilesX_2_56 literal_0_7 tilesX_63_0_7 simp_thms)
qed

text \<open>
  Claim C1, amended. Let \<open>tilesX\<close> and \<open>tilesZ\<close> be what \<open>Math.ceil\<close> makes of the rounded
  quotients. When both are at most \<open>2^53\<close> (or \<open>NaN\<close>), \<open>createBaseplate\<close> returns and has
  made exactly \<open>tilesX * tilesZ\<close> placements (none for a bound that is not above 0), one
  per cell of the grid, in the mode that loads assets (one load per cell) and in the mode
  that builds boxes (one mesh per cell). When a loop that is entered has a bound above
  \<open>2^53\<close>, the function does not return. When width, length and tile size are positive
  integers up to \<open>2^52\<close>, the bounds are the ceilings of the exact quotients, so the
  function returns with \<open>columns * rows\<close> placements.
\<close>

theorem createBaseplate_placement_count:
  assumes ts: "default_arg ta (Fin 4) = ts"
  shows "(loop_ends (tilesX width ts) \<and> loop_ends (tilesZ length' ts) \<longrightarrow>
            (\<exists>res. createBaseplate_with useTileAsset sc width length' ya ta = Some res \<and>
               length (placements res) =
                 iterations (tilesX width ts) * iterations (tilesZ length' ts) \<and>
               length (if useTileAsset then map load_position (loads res)
                       else map position (children (baseplate res))) =
                 iterations (tilesX width ts) * iterations (tilesZ length' ts))) \<and>
         (\<not> returns width length' ts \<longrightarrow>
            createBaseplate_with useTileAsset sc width length' ya ta = None) \<and>
         (exact_dimension w \<and> exact_dimension l \<and> exact_dimension t \<and>
          width = Fin w \<and> length' = Fin l \<and> ts = Fin t \<longrightarrow>
            tilesX width ts = Fin (of_int \<lceil>w / t\<rceil>) \<and>
            tilesZ length' ts = Fin (of_int \<lceil>l / t\<rceil>) \<and>
            columns w t = nat \<lceil>w / t\<rceil> \<and> rows l t = nat \<lceil>l / t\<rceil> \<and>
            loop_ends (tilesX width ts) \<and> loop_ends (tilesZ length' ts) \<and>
            iterations (tilesX width ts) = columns w t \<and>
            iterations (tilesZ length' ts) = rows l t \<and>
            (\<exists>res. createBaseplate_with useTileAsset sc width length' ya ta = Some res \<and>
               length (placements res) = columns w t * rows l t))"
proof (intro conjI impI)
  assume ends: "loop_ends (tilesX width ts) \<and> loop_ends (tilesZ length' ts)"
  then have "returns width length' ts" by (simp add: returns_def)
  then have res: "createBaseplate_with useTileAsset sc width length' ya ta =
      Some (layout_result useTileAsset sc width length' (default_arg ya (Fin (- 4))) ts)"
    by (simp add: createBaseplate_with_cases ts)
  have "length (if useTileAsset
          then map load_position (loads (layout_result useTileAsset sc width length' (default_arg ya (Fin (- 4))) ts))
          else map position (children (baseplate (layout_result useTileAsset sc width length' (default_arg ya (Fin (- 4))) ts)))) =
        iterations (tilesX width ts) * iterations (tilesZ length' ts)"
    by (cases useTileAsset) (simp_all add: layout_result_asset layout_result_geometry length_grid)
  with res show "\<exists>res. createBaseplate_with useTileAsset sc width length' ya ta = Some res \<and>
               length (placements res) =
                 iterations (tilesX width ts) * iterations (tilesZ length' ts) \<and>
               length (if useTileAsset then map load_position (loads res)
                       else map position (children (baseplate res))) =
                 iterations (tilesX width ts) * iterations (tilesZ length' ts)"
    by (simp only: length_placements_layout_result simp_thms option.inject ex_simps)
next
  assume "\<not> returns width length' ts"
  then show "createBaseplate_with useTileAsset sc width length' ya ta = None"
    by (simp add: createBaseplate_with_cases ts)
next
  assume ex: "exact_dimension w \<and> exact_dimension l \<and> exact_dimension t \<and>
          width = Fin w \<and> length' = Fin l \<and> ts = Fin t"
  then have w: "exact_dimension w" and l: "exact_dimension l" and t: "exact_dimension t"
    and eq: "width = Fin w" "length' = Fin l" "ts = Fin t" by simp_all
  have tx: "tilesX width ts = Fin (of_nat (columns w t))"
    and tz: "tilesZ length' ts = Fin (of_nat (rows l t))"
    unfolding eq using w l t by (simp_all add: tilesX_exact tilesZ_tilesX rows_columns)
  show "tilesX width ts = Fin (of_int \<lceil>w / t\<rceil>)"
    unfolding eq by (rule tilesX_exact_ceiling [OF w t])
  show "tilesZ length' ts = Fin (of_int \<lceil>l / t\<rceil>)"
    unfolding eq tilesZ_tilesX by (rule tilesX_exact_ceiling [OF l t])
  show "columns w t = nat \<lceil>w / t\<rceil>" by (simp add: columns_def)
  show "rows l t = nat \<lceil>l / t\<rceil>" by (simp add: rows_def)
  show ex: "loop_ends (tilesX width ts)" unfolding tx by (rule exact_ends(1) [OF w t])
  show ez: "loop_ends (tilesZ length' ts)" unfolding tz rows_columns by (rule exact_ends(1) [OF l t])
  show "iterations (tilesX width ts) = columns w t" unfolding tx by simp
  show "iterations (tilesZ length' ts) = rows l t" unfolding tz by simp
  from placements_createBaseplate [OF w l t, of ta useTileAsset sc ya] ts eq
  show "\<exists>res. createBaseplate_with useTileAsset sc width length' ya ta = Some res \<and>
               length (placements res) = columns w t * rows l t"
    by (auto simp: length_computeTilePlacements)
qed

theorem createBaseplate_placement_count_witness:
  "default_arg None (Fin 4) = Fin 4 \<and>
   exact_dimension 8 \<and> exact_dimension 5 \<and> exact_dimension 4 \<and>
   loop_ends (tilesX (Fin 8) (Fin 4)) \<and> loop_ends (tilesZ (Fin 5) (Fin 4)) \<and>
   tilesX (Fin 8) (Fin 4) = Fin 2 \<and> tilesZ (Fin 5) (Fin 4) = Fin 2 \<and>
   (\<exists>res. createBaseplate_with True new_Scene (Fin 8) (Fin 5) None None = Some res \<and>
      length (placements res) = 4 \<and> length (loads res) = 4) \<and>
   \<not> returns (Fin (2 ^ 56)) (Fin 4) (Fin 4) \<and>
   createBaseplate_with True new_Scene (Fin (2 ^ 56)) (Fin 4) None None = None"
proof -
  have c: "\<lceil>8 / 4 :: rat\<rceil> = 2" "\<lceil>5 / 4 :: rat\<rceil> = 2" by (rule ceiling_unique, simp_all)+
  have n: "\<not> returns (Fin (2 ^ 56)) (Fin 4) (Fin 4)"
    unfolding returns_def tilesX_2_56 by simp
  show ?thesis
    using createBaseplate_placement_count [of None "Fin 4" "Fin 8" "Fin 5" True new_Scene None 8 5 4]
      createBaseplate_placement_count [of None "Fin 4" "Fin (2 ^ 56)" "Fin 4" True new_Scene None 8 5 4]
      n
    by (auto simp: c columns_def rows_def)
qed




text \<open>
  Claim C3. With width 100, length 100 and tile size 4 (passed, or omitted and taken by
  default) there are 25 columns and 25 rows, hence 625 placements, and the x and the z
  coordinates are the numbers from -48 to 48 in steps of 4.
\<close>

theorem scenario_100_100_4:
  "tilesX (Fin 100) (Fin 4) = Fin 25 \<and> tilesZ (Fin 100) (Fin 4) = Fin 25 \<and>
   (\<exists>res. createBaseplate_with useTileAsset sc (Fin 100) (Fin 100) ya
             (if omitted then None else Some (Fin 4)) = Some res \<and>
      length (placements res) = 625 \<and>
      vx ` set (placements res) = (\<lambda>k. Fin (- 48 + 4 * of_nat k)) ` {..<25} \<and>
      vz ` set (placements res) = (\<lambda>k. Fin (- 48 + 4 * of_nat k)) ` {..<25}) \<and>
   Min (axis_coordinates 25 4) = - 48 \<and> Max (axis_coordinates 25 4) = 48"
proof -
  let ?ta = "if omitted then None else Some (Fin 4)"
  have ta: "default_arg ?ta (Fin 4) = Fin 4" by simp
  have e: "exact_dimension 100" "exact_dimension 4" by simp_all
  obtain res where res: "createBaseplate_with useTileAsset sc (Fin 100) (Fin 100) ya ?ta = Some res"
    and pl: "placements res = computeTilePlacements 100 100 4 (default_arg ya (Fin (- 4)))"
    using placements_createBaseplate [OF e(1) e(1) e(2) ta, of useTileAsset sc ya] by auto
  have "length (placements res) = 625"
    by (simp add: pl length_computeTilePlacements columns_100_4 rows_100_4)
  moreover have "vx ` set (placements res) = (\<lambda>k. Fin (- 48 + 4 * of_nat k)) ` {..<25}"
    unfolding pl by (simp add: vx_computeTilePlacements columns_100_4 rows_100_4 axis_25_4)
  moreover have "vz ` set (placements res) = (\<lambda>k. Fin (- 48 + 4 * of_nat k)) ` {..<25}"
    unfolding pl by (simp add: vz_computeTilePlacements columns_100_4 rows_100_4 axis_25_4)
  moreover have "Min (axis_coordinates 25 4) = - 48" "Max (axis_coordinates 25 4) = 48"
    by (simp_all add: Min_axis Max_axis centre_offset_def)
  moreover have "tilesX (Fin 100) (Fin 4) = Fin 25" "tilesZ (Fin 100) (Fin 4) = Fin 25"
    using tilesX_exact [OF e] by (simp_all add: tilesZ_tilesX columns_100_4)
  ultimately show ?thesis using res by blast
qed




text \<open>
  Claim C5 fails as it is stated. The smallest positive number, \<open>2^-1074\<close> (5e-324), is
  above 0 and below the tile size 4, but its quotient by 4 is rounded to 0 and \<open>Math.ceil\<close>
  of it is 0: there is no column, and \<open>createBaseplate\<close> returns without a single
  placement.
\<close>

theorem tiny_width_no_tile:
  "is_double (1 / 2 ^ 1074) \<and> (0::rat) < 1 / 2 ^ 1074 \<and> (1 / 2 ^ 1074 :: rat) < 4 \<and>
   tilesX (Fin (1 / 2 ^ 1074)) (Fin 4) = Fin 0 \<and>
   map_option placements
     (createBaseplate new_Scene (Fin (1 / 2 ^ 1074)) (Fin (1 / 2 ^ 1074)) None None) = Some []"
proof -
  have ret: "returns (Fin (1 / 2 ^ 1074)) (Fin (1 / 2 ^ 1074)) (Fin 4)"
    unfolding returns_def tilesX_min_4 by simp
  have "placements (layout_result True new_Scene (Fin (1 / 2 ^ 1074)) (Fin (1 / 2 ^ 1074))
           (Fin (- 4)) (Fin 4)) = []"
    unfolding placements_layout_result tilesX_min_4 by simp
  with ret have "map_option placements
     (createBaseplate new_Scene (Fin (1 / 2 ^ 1074)) (Fin (1 / 2 ^ 1074)) None None) = Some []"
    unfolding createBaseplate_def createBaseplate_with_cases by simp
  moreover have "is_double (1 / 2 ^ 1074)" unfolding is_double_def by (rule round_double_min)
  moreover have "(0::rat) < 1 / 2 ^ 1074" "(1 / 2 ^ 1074 :: rat) < 4" by simp_all
  ultimately show ?thesis by (simp only: tilesX_min_4 simp_thms)
qed

text \<open>
  Claim C5, amended. A width between 0 and the tile size whose quotient by the tile size
  is not rounded to 0 gives one column, and likewise a length gives one row; the quotient
  is not rounded to 0 when it is at least \<open>2^-1022\<close>. When this holds of both, the result
  is a single placement at \<open>x = 0\<close>, \<open>z = 0\<close>. A width whose quotient is rounded to 0 gives
  no column and no placement.
\<close>

theorem smaller_than_tile_single_tile:
  assumes t: "default_arg ta (Fin 4) = Fin t" and d: "is_double t"
  shows "(0 < w \<and> w < t \<and> js_div (Fin w) (Fin t) \<noteq> Fin 0 \<longrightarrow> tilesX (Fin w) (Fin t) = Fin 1) \<and>
         (0 < l \<and> l < t \<and> js_div (Fin l) (Fin t) \<noteq> Fin 0 \<longrightarrow> tilesZ (Fin l) (Fin t) = Fin 1) \<and>
         (0 < w \<and> w < t \<and> js_div (Fin w) (Fin t) \<noteq> Fin 0 \<and>
          0 < l \<and> l < t \<and> js_div (Fin l) (Fin t) \<noteq> Fin 0 \<longrightarrow>
            (\<exists>res. createBaseplate_with useTileAsset sc (Fin w) (Fin l) ya ta = Some res \<and>
               placements res = [\<lparr>vx = Fin 0, vy = default_arg ya (Fin (- 4)), vz = Fin 0\<rparr>])) \<and>
         (0 < w \<and> w < t \<and> 2 powi (- 1022) \<le> w / t \<longrightarrow> js_div (Fin w) (Fin t) \<noteq> Fin 0) \<and>
         (0 < w \<and> w < t \<and> js_div (Fin w) (Fin t) = Fin 0 \<longrightarrow>
            tilesX (Fin w) (Fin t) = Fin 0 \<and>
            map_option placements (createBaseplate_with useTileAsset sc (Fin w) (Fin l) ya ta) = Some [])"
proof (intro conjI impI)
  assume "0 < w \<and> w < t \<and> js_div (Fin w) (Fin t) \<noteq> Fin 0"
  then show "tilesX (Fin w) (Fin t) = Fin 1" by (simp add: tilesX_small del: js_div.simps)
next
  assume "0 < l \<and> l < t \<and> js_div (Fin l) (Fin t) \<noteq> Fin 0"
  then show "tilesZ (Fin l) (Fin t) = Fin 1"
    by (simp add: tilesZ_tilesX tilesX_small del: js_div.simps)
next
  assume a: "0 < w \<and> w < t \<and> js_div (Fin w) (Fin t) \<noteq> Fin 0 \<and>
          0 < l \<and> l < t \<and> js_div (Fin l) (Fin t) \<noteq> Fin 0"
  then have tx: "tilesX (Fin w) (Fin t) = Fin 1" and tz: "tilesZ (Fin l) (Fin t) = Fin 1"
    by (simp_all add: tilesZ_tilesX tilesX_small del: js_div.simps)
  have ret: "returns (Fin w) (Fin l) (Fin t)" by (simp add: returns_def tx tz)
  have "placements (layout_result useTileAsset sc (Fin w) (Fin l) (default_arg ya (Fin (- 4))) (Fin t)) =
      [\<lparr>vx = Fin 0, vy = default_arg ya (Fin (- 4)), vz = Fin 0\<rparr>]"
    by (simp add: placements_layout_result tx tz grid_def offsetZ_offsetX offsetX_one [OF d]
        del: js_mul.simps js_sub.simps)
  with ret show "\<exists>res. createBaseplate_with useTileAsset sc (Fin w) (Fin l) ya ta = Some res \<and>
          placements res = [\<lparr>vx = Fin 0, vy = default_arg ya (Fin (- 4)), vz = Fin 0\<rparr>]"
    by (simp add: createBaseplate_with_cases t)
next
  assume a: "0 < w \<and> w < t \<and> 2 powi (- 1022) \<le> w / t"
  then have "w / t < 1" by simp
  then have "w / t < 2 ^ 53" by (rule_tac order_less_trans [where y = 1]) simp_all
  with a show "js_div (Fin w) (Fin t) \<noteq> Fin 0"
    by (intro quotient_not_zero) simp_all
next
  assume a: "0 < w \<and> w < t \<and> js_div (Fin w) (Fin t) = Fin 0"
  then show tx: "tilesX (Fin w) (Fin t) = Fin 0" by (simp add: tilesX_def del: js_div.simps)
  then have "returns (Fin w) (Fin l) (Fin t)" by (simp add: returns_def)
  then show "map_option placements (createBaseplate_with useTileAsset sc (Fin w) (Fin l) ya ta) = Some []"
    by (simp add: createBaseplate_with_cases t placements_layout_result tx)
qed

theorem smaller_than_tile_single_tile_witness:
  "default_arg None (Fin 4) = Fin 4 \<and> is_double 4 \<and>
   (0::rat) < 1 \<and> (1::rat) < 4 \<and> js_div (Fin 1) (Fin 4) \<noteq> Fin 0 \<and>
   (0::rat) < 3 \<and> (3::rat) < 4 \<and> js_div (Fin 3) (Fin 4) \<noteq> Fin 0 \<and>
   (2::rat) powi (- 1022) \<le> 1 / 4 \<and>
   tilesX (Fin 1) (Fin 4) = Fin 1 \<and> tilesZ (Fin 3) (Fin 4) = Fin 1 \<and>
   (\<exists>res. createBaseplate_with True new_Scene (Fin 1) (Fin 3) None None = Some res \<and>
      placements res = [\<lparr>vx = Fin 0, vy = Fin (- 4), vz = Fin 0\<rparr>])"
proof -
  have q: "round_double (1 / 4) = Fin (1 / 4)" "round_double (3 / 4) = Fin (3 / 4)"
    using round_double_dyadic [of 1 "- 2"] round_double_dyadic [of 3 "- 2"]
    by (simp_all add: power_int_minus_divide)
  have p: "(2::rat) powi (- 1022) \<le> 1 / 4"
    by (simp add: power_int_minus_divide)
  show ?thesis
    using smaller_than_tile_single_tile [of None 4 1 3 True new_Scene None] is_double_4 p
    by (simp add: q)
qed

text \<open>
  Claim C6. For every width, length, tile size and plate height, every placement that
  \<open>createBaseplate\<close> has produced when it returns has the plate height as its y
  coordinate, unchanged: the tiles that the geometry mode adds to the group, and the tiles
  that the callbacks of the asset mode position when their model is loaded. The function
  returns with at least one placement when both loops end and have a bound above 0, and
  in particular when width, length and tile size are positive integers up to \<open>2^52\<close>.
\<close>

theorem placements_keep_plate_height:
  "(\<forall>res. createBaseplate_with useTileAsset sc width length' ya ta = Some res \<longrightarrow>
      (\<forall>p \<in> set (placements res). vy p = default_arg ya (Fin (- 4))) \<and>
      (\<forall>tile \<in> set (children (baseplate res)). vy (position tile) = default_arg ya (Fin (- 4))) \<and>
      (\<forall>call \<in> set (loads res). \<forall>gltf_scene bp.
         vy (position (last (children (tile_onLoad call gltf_scene bp)))) =
           default_arg ya (Fin (- 4)))) \<and>
   (loop_ends (tilesX width (default_arg ta (Fin 4))) \<and>
    loop_ends (tilesZ length' (default_arg ta (Fin 4))) \<and>
    0 < iterations (tilesX width (default_arg ta (Fin 4))) \<and>
    0 < iterations (tilesZ length' (default_arg ta (Fin 4))) \<longrightarrow>
      (\<exists>res. createBaseplate_with useTileAsset sc width length' ya ta = Some res \<and>
         placements res \<noteq> [])) \<and>
   (exact_dimension w \<and> exact_dimension l \<and> exact_dimension t \<and>
    width = Fin w \<and> length' = Fin l \<and> default_arg ta (Fin 4) = Fin t \<longrightarrow>
      (\<exists>res. createBaseplate_with useTileAsset sc width length' ya ta = Some res \<and>
         placements res \<noteq> []))"
proof (intro conjI allI impI)
  fix res assume res: "createBaseplate_with useTileAsset sc width length' ya ta = Some res"
  note eq = createBaseplate_with_Some(2) [OF res]
  show "\<forall>p \<in> set (placements res). vy p = default_arg ya (Fin (- 4))"
    unfolding eq by (blast dest: layout_result_vy(1))
  show "\<forall>tile \<in> set (children (baseplate res)). vy (position tile) = default_arg ya (Fin (- 4))"
    unfolding eq by (blast dest: layout_result_vy(2))
  show "\<forall>call \<in> set (loads res). \<forall>gltf_scene bp.
         vy (position (last (children (tile_onLoad call gltf_scene bp)))) =
           default_arg ya (Fin (- 4))"
    unfolding eq using layout_result_vy(3)
    by (simp add: tile_onLoad_position load_position_def)
next
  let ?ts = "default_arg ta (Fin 4)"
  assume a: "loop_ends (tilesX width ?ts) \<and> loop_ends (tilesZ length' ?ts) \<and>
    0 < iterations (tilesX width ?ts) \<and> 0 < iterations (tilesZ length' ?ts)"
  then have "returns width length' ?ts" by (simp add: returns_def)
  then have "createBaseplate_with useTileAsset sc width length' ya ta =
      Some (layout_result useTileAsset sc width length' (default_arg ya (Fin (- 4))) ?ts)"
    by (simp add: createBaseplate_with_cases)
  moreover have "length (placements (layout_result useTileAsset sc width length'
      (default_arg ya (Fin (- 4))) ?ts)) \<noteq> 0"
    using a by (simp add: length_placements_layout_result)
  ultimately show "\<exists>res. createBaseplate_with useTileAsset sc width length' ya ta = Some res \<and>
         placements res \<noteq> []"
    by auto
next
  assume a: "exact_dimension w \<and> exact_dimension l \<and> exact_dimension t \<and>
    width = Fin w \<and> length' = Fin l \<and> default_arg ta (Fin 4) = Fin t"
  then have e: "exact_dimension w" "exact_dimension l" "exact_dimension t"
    and ta: "default_arg ta (Fin 4) = Fin t" and eq: "width = Fin w" "length' = Fin l"
    by simp_all
  obtain res where res: "createBaseplate_with useTileAsset sc (Fin w) (Fin l) ya ta = Some res"
    and pl: "placements res = computeTilePlacements w l t (default_arg ya (Fin (- 4)))"
    using placements_createBaseplate [OF e ta] by blast
  have "length (placements res) = columns w t * rows l t"
    by (simp add: pl length_computeTilePlacements)
  moreover have "0 < columns w t * rows l t"
    using e by (simp add: columns_pos rows_pos exact_dimension_pos)
  ultimately have "placements res \<noteq> []" by auto
  with res show "\<exists>res. createBaseplate_with useTileAsset sc width length' ya ta = Some res \<and>
         placements res \<noteq> []"
    unfolding eq by blast
qed

theorem placements_keep_plate_height_witness:
  "exact_dimension 9 \<and> exact_dimension 5 \<and> exact_dimension 4 \<and>
   default_arg None (Fin 4) = Fin 4 \<and>
   loop_ends (tilesX (Fin 9) (Fin 4)) \<and> loop_ends (tilesZ (Fin 5) (Fin 4)) \<and>
   0 < iterations (tilesX (Fin 9) (Fin 4)) \<and> 0 < iterations (tilesZ (Fin 5) (Fin 4)) \<and>
   (\<exists>res. createBaseplate_with True new_Scene (Fin 9) (Fin 5) (Some (Fin 7)) None = Some res \<and>
     placements res \<noteq> [] \<and>
     (\<forall>p \<in> set (placements res). vy p = Fin 7) \<and>
     (\<forall>tile \<in> set (children (baseplate res)). vy (position tile) = Fin 7) \<and>
     (\<forall>call \<in> set (loads res). \<forall>gltf_scene bp.
        vy (position (last (children (tile_onLoad call gltf_scene bp)))) = Fin 7))"
  using placements_keep_plate_height [of True new_Scene "Fin 9" "Fin 5" "Some (Fin 7)" None 9 5 4]
  by (auto simp: tilesX_9_4 tilesX_5_4 tilesZ_tilesX)

text \<open>
  Claim C7. The layout is deterministic: two calls with the same width, length, tile size
  and plate height give the same sequence of placements, whatever the scene they are
  called on (the second call may see the scene that the first one has changed).
\<close>

theorem placements_deterministic:
  "map_option placements (createBaseplate_with useTileAsset sc1 width length' yPosition tileSize) =
   map_option placements (createBaseplate_with useTileAsset sc2 width length' yPosition tileSize)"
  by (rule placements_scene_independent)

text \<open>
  Claim C8 fails as it is stated: \<open>createBaseplate\<close> is not free of effects. Called on the
  empty scene with width 4 and length 4, it leaves a scene that has the new group among
  its children, and it has asked the loader for a tile.
\<close>

theorem createBaseplate_changes_scene:
  "createBaseplate new_Scene (Fin 4) (Fin 4) None None =
     Some \<lparr>baseplate = Object3D ''Baseplate'' None origin False False [],
           scene_after = \<lparr>background = None,
                          scene_children = [Object3D ''Baseplate'' None origin False False []]\<rparr>,
           loads = [\<lparr>url = ''./assets/base_tile.glb'', cb_posX = Fin 0,
                     cb_yPosition = Fin (- 4), cb_posZ = Fin 0\<rparr>]\<rparr> \<and>
   scene_after (the (createBaseplate new_Scene (Fin 4) (Fin 4) None None)) \<noteq> new_Scene \<and>
   loads (the (createBaseplate new_Scene (Fin 4) (Fin 4) None None)) \<noteq> []"
  by (simp add: createBaseplate_def createBaseplate_4_4 new_Scene_def scene_add_def)

text \<open>
  Claim C8, amended. The placements are a function of width, length, tile size and plate
  height alone: they do not depend on the scene. But \<open>createBaseplate\<close> populates the scene
  itself. Whenever it returns, the scene is the one it was given with the group
  \<open>Baseplate\<close> appended to its children and nothing else changed. In the asset mode the
  group is still empty and one load of the tile model has been requested for every cell of
  the grid, column by column; the callback of a load positions the loaded tile, sets its
  shadow flags and appends it to the group. In the geometry mode nothing is loaded and
  the group holds one box mesh for every cell of the grid, column by column.
\<close>

theorem createBaseplate_effects:
  assumes res: "createBaseplate_with useTileAsset sc width length' ya ta = Some res"
    and ts: "ts = default_arg ta (Fin 4)" and y: "y = default_arg ya (Fin (- 4))"
    and nx: "nx = iterations (tilesX width ts)" and nz: "nz = iterations (tilesZ length' ts)"
    and ox: "ox = offsetX (tilesX width ts) ts" and oz: "oz = offsetZ (tilesZ length' ts) ts"
  shows "scene_after res = sc\<lparr>scene_children := scene_children sc @ [baseplate res]\<rparr> \<and>
         name (baseplate res) = ''Baseplate'' \<and>
         (useTileAsset \<longrightarrow>
            children (baseplate res) = [] \<and>
            loads res = grid nx nz (\<lambda>x z. tile_load ts ox oz y (Fin (of_nat x)) (Fin (of_nat z))) \<and>
            length (loads res) = nx * nz \<and>
            (\<forall>call \<in> set (loads res). url call = ''./assets/base_tile.glb'' \<and>
               (\<forall>gltf_scene bp. children (tile_onLoad call gltf_scene bp) =
                  children bp @ [setShadow (position_set gltf_scene (cb_posX call)
                                   (cb_yPosition call) (cb_posZ call)) False True]))) \<and>
         (\<not> useTileAsset \<longrightarrow>
            loads res = [] \<and>
            children (baseplate res) =
              grid nx nz (\<lambda>x z. tile_mesh ts ox oz y (Fin (of_nat x)) (Fin (of_nat z))) \<and>
            length (children (baseplate res)) = nx * nz) \<and>
         placements res =
           grid nx nz (\<lambda>x z. \<lparr>vx = js_sub (js_mul (Fin (of_nat x)) ts) ox, vy = y,
                               vz = js_sub (js_mul (Fin (of_nat z)) ts) oz\<rparr>) \<and>
         (\<forall>sc'. map_option placements (createBaseplate_with useTileAsset sc' width length' ya ta) =
                 Some (placements res))"
proof -
  have eq: "res = layout_result useTileAsset sc width length' y ts"
    unfolding y ts by (rule createBaseplate_with_Some(2) [OF res])
  have sc: "scene_after res = sc\<lparr>scene_children := scene_children sc @ [baseplate res]\<rparr>"
    "name (baseplate res) = ''Baseplate''"
    unfolding eq by (rule layout_result_scene)+
  have asset: "useTileAsset \<longrightarrow>
            children (baseplate res) = [] \<and>
            loads res = grid nx nz (\<lambda>x z. tile_load ts ox oz y (Fin (of_nat x)) (Fin (of_nat z))) \<and>
            length (loads res) = nx * nz \<and>
            (\<forall>call \<in> set (loads res). url call = ''./assets/base_tile.glb'' \<and>
               (\<forall>gltf_scene bp. children (tile_onLoad call gltf_scene bp) =
                  children bp @ [setShadow (position_set gltf_scene (cb_posX call)
                                   (cb_yPosition call) (cb_posZ call)) False True]))"
  proof
    assume f: useTileAsset
    have "\<forall>call \<in> set (loads res). url call = ''./assets/base_tile.glb''"
      unfolding eq by (blast dest: layout_result_vy(3))
    then show "children (baseplate res) = [] \<and>
            loads res = grid nx nz (\<lambda>x z. tile_load ts ox oz y (Fin (of_nat x)) (Fin (of_nat z))) \<and>
            length (loads res) = nx * nz \<and>
            (\<forall>call \<in> set (loads res). url call = ''./assets/base_tile.glb'' \<and>
               (\<forall>gltf_scene bp. children (tile_onLoad call gltf_scene bp) =
                  children bp @ [setShadow (position_set gltf_scene (cb_posX call)
                                   (cb_yPosition call) (cb_posZ call)) False True]))"
      using f by (simp add: eq layout_result_asset length_grid nx nz ox oz tile_onLoad_children)
  qed
  have geometry: "\<not> useTileAsset \<longrightarrow>
            loads res = [] \<and>
            children (baseplate res) =
              grid nx nz (\<lambda>x z. tile_mesh ts ox oz y (Fin (of_nat x)) (Fin (of_nat z))) \<and>
            length (children (baseplate res)) = nx * nz"
    by (simp add: eq layout_result_geometry length_grid nx nz ox oz)
  have pl: "placements res =
           grid nx nz (\<lambda>x z. \<lparr>vx = js_sub (js_mul (Fin (of_nat x)) ts) ox, vy = y,
                               vz = js_sub (js_mul (Fin (of_nat z)) ts) oz\<rparr>)"
    unfolding eq nx nz ox oz by (rule placements_layout_result)
  have indep: "\<forall>sc'. map_option placements (createBaseplate_with useTileAsset sc' width length' ya ta) =
                 Some (placements res)"
    using placements_scene_independent [of useTileAsset _ width length' ya ta sc] res by simp
  from sc asset geometry pl indep show ?thesis by blast
qed

theorem createBaseplate_effects_witness:
  "createBaseplate_with False new_Scene (Fin 4) (Fin 4) None None =
     Some \<lparr>baseplate = Object3D ''Baseplate'' None origin False False
              [Object3D [] (Some (BoxGeometry (Fin 4) (Fin (1 / 2)) (Fin 4),
                                  \<lparr>color = 0x333333, roughness = round_double (8 / 10)\<rparr>))
                 \<lparr>vx = Fin 0, vy = Fin (- 4), vz = Fin 0\<rparr> False True []],
           scene_after = scene_add new_Scene (Object3D ''Baseplate'' None origin False False
              [Object3D [] (Some (BoxGeometry (Fin 4) (Fin (1 / 2)) (Fin 4),
                                  \<lparr>color = 0x333333, roughness = round_double (8 / 10)\<rparr>))
                 \<lparr>vx = Fin 0, vy = Fin (- 4), vz = Fin 0\<rparr> False True []]),
           loads = []\<rparr> \<and>
   map_option placements (createBaseplate_with False initial_scene (Fin 4) (Fin 4) None None) =
     Some [\<lparr>vx = Fin 0, vy = Fin (- 4), vz = Fin 0\<rparr>] \<and>
   createBaseplate_with True new_Scene (Fin 4) (Fin 4) None None =
     Some \<lparr>baseplate = Object3D ''Baseplate'' None origin False False [],
           scene_after = scene_add new_Scene (Object3D ''Baseplate'' None origin False False []),
           loads = [\<lparr>url = ''./assets/base_tile.glb'', cb_posX = Fin 0,
                     cb_yPosition = Fin (- 4), cb_posZ = Fin 0\<rparr>]\<rparr> \<and>
   map_option placements (createBaseplate_with True initial_scene (Fin 4) (Fin 4) None None) =
     Some [\<lparr>vx = Fin 0, vy = Fin (- 4), vz = Fin 0\<rparr>]"
proof -
  note g = createBaseplate_effects [OF createBaseplate_4_4(2) [of new_Scene] refl refl refl refl refl refl]
  note a = createBaseplate_effects [OF createBaseplate_4_4(1) [of new_Scene] refl refl refl refl refl refl]
  note pg = g [THEN conjunct2, THEN conjunct2, THEN conjunct2, THEN conjunct2, THEN conjunct2,
      THEN spec, of initial_scene]
  note pa = a [THEN conjunct2, THEN conjunct2, THEN conjunct2, THEN conjunct2, THEN conjunct2,
      THEN spec, of initial_scene]
  show ?thesis
    using pg pa createBaseplate_4_4 [of new_Scene]
    by (simp add: placements_def load_position_def)
qed

text \<open>
  Claim C9 fails as it is stated: nothing checks the dimensions. With the text \<open>-5\<close> in the
  width field the listener of the button passes -5 on, \<open>createBaseplate\<close> receives it and
  returns as usual, and the scene gets a baseplate without tiles.
\<close>

theorem invalid_width_not_rejected:
  "parseInt (code_units ''-5'') = Fin (- 5) \<and> invalid_dimension (Fin (- 5)) \<and>
   generateButton_click (code_units ''-5'') (code_units ''100'') =
     Some (\<lparr>background = Some 0x9ad0ec,
            scene_children = [Object3D [] None origin False False [],
                              Object3D [] None \<lparr>vx = Fin 50, vy = Fin 100, vz = Fin 50\<rparr> True False [],
                              Object3D ''Baseplate'' None origin False False []]\<rparr>, []) \<and>
   createBaseplate initial_scene (Fin (- 5)) (Fin 100) (Some (Fin (- 4))) None =
     Some \<lparr>baseplate = Object3D ''Baseplate'' None origin False False [],
           scene_after = scene_add initial_scene (Object3D ''Baseplate'' None origin False False []),
           loads = []\<rparr>"
proof -
  have inv: "invalid_dimension (Fin (- 5))" by (simp add: invalid_dimension_def)
  then have "createBaseplate initial_scene (Fin (- 5)) (Fin 100) (Some (Fin (- 4))) None =
     Some \<lparr>baseplate = Object3D ''Baseplate'' None origin False False [],
           scene_after = scene_add initial_scene (Object3D ''Baseplate'' None origin False False []),
           loads = []\<rparr>"
    unfolding createBaseplate_def by (simp add: createBaseplate_invalid [where t = 4])
  with inv show ?thesis
    by (simp add: generateButton_click_unfold parseInt_minus_5 parseInt_100 initial_scene_def scene_add_def)
qed

text \<open>
  Claim C9, amended. A dimension that is not valid is not rejected. The listener of the
  button passes what \<open>parseInt\<close> makes of the two fields through \<open>init\<close> and
  \<open>setupEnvironment\<close> to \<open>createBaseplate\<close> unchanged. When the width is at most 0 or is
  \<open>NaN\<close>, or the length is and the width gives at most \<open>2^53\<close> columns, \<open>createBaseplate\<close>
  does not fail: it returns a group without tiles, requests no load, and adds the empty
  group to the scene. When the width gives more than \<open>2^53\<close> columns, the listener does
  not return, whatever the length is.
\<close>

theorem invalid_dimensions_reach_createBaseplate:
  "generateButton_click wv lv =
     map_option (\<lambda>res. (scene_after res, loads res))
       (createBaseplate initial_scene (parseInt wv) (parseInt lv) (Some (Fin (- 4))) None) \<and>
   (invalid_dimension (parseInt wv) \<or>
    (invalid_dimension (parseInt lv) \<and> loop_ends (tilesX (parseInt wv) (Fin 4))) \<longrightarrow>
      createBaseplate initial_scene (parseInt wv) (parseInt lv) (Some (Fin (- 4))) None =
        Some \<lparr>baseplate = Object3D ''Baseplate'' None origin False False [],
              scene_after = scene_add initial_scene (Object3D ''Baseplate'' None origin False False []),
              loads = []\<rparr> \<and>
      generateButton_click wv lv =
        Some (scene_add initial_scene (Object3D ''Baseplate'' None origin False False []), [])) \<and>
   (\<not> loop_ends (tilesX (parseInt wv) (Fin 4)) \<longrightarrow> generateButton_click wv lv = None)"
proof (intro conjI impI)
  show "generateButton_click wv lv =
     map_option (\<lambda>res. (scene_after res, loads res))
       (createBaseplate initial_scene (parseInt wv) (parseInt lv) (Some (Fin (- 4))) None)"
    by (rule generateButton_click_unfold)
next
  assume "invalid_dimension (parseInt wv) \<or>
    (invalid_dimension (parseInt lv) \<and> loop_ends (tilesX (parseInt wv) (Fin 4)))"
  then have c: "createBaseplate initial_scene (parseInt wv) (parseInt lv) (Some (Fin (- 4))) None =
        Some \<lparr>baseplate = Object3D ''Baseplate'' None origin False False [],
              scene_after = scene_add initial_scene (Object3D ''Baseplate'' None origin False False []),
              loads = []\<rparr>"
    unfolding createBaseplate_def by (intro createBaseplate_invalid [where t = 4]) simp_all
  then show "createBaseplate initial_scene (parseInt wv) (parseInt lv) (Some (Fin (- 4))) None =
        Some \<lparr>baseplate = Object3D ''Baseplate'' None origin False False [],
              scene_after = scene_add initial_scene (Object3D ''Baseplate'' None origin False False []),
              loads = []\<rparr>" .
  from c show "generateButton_click wv lv =
        Some (scene_add initial_scene (Object3D ''Baseplate'' None origin False False []), [])"
    by (simp add: generateButton_click_unfold)
next
  assume "\<not> loop_ends (tilesX (parseInt wv) (Fin 4))"
  then have "\<not> returns (parseInt wv) (parseInt lv) (Fin 4)" by (simp add: returns_def)
  then show "generateButton_click wv lv = None"
    by (simp add: generateButton_click_unfold createBaseplate_def createBaseplate_with_cases)
qed

theorem invalid_dimensions_reach_createBaseplate_witness:
  "invalid_dimension (parseInt []) \<and>
   generateButton_click [] (code_units ''100'') =
     map_option (\<lambda>res. (scene_after res, loads res))
       (createBaseplate initial_scene NaN (Fin 100) (Some (Fin (- 4))) None) \<and>
   createBaseplate initial_scene NaN (Fin 100) (Some (Fin (- 4))) None =
     Some \<lparr>baseplate = Object3D ''Baseplate'' None origin False False [],
           scene_after = scene_add initial_scene (Object3D ''Baseplate'' None origin False False []),
           loads = []\<rparr> \<and>
   \<not> loop_ends (tilesX (parseInt (code_units ''100000000000000000'')) (Fin 4)) \<and>
   generateButton_click (code_units ''100000000000000000'') [] = None"
proof -
  have h: "invalid_dimension (parseInt [])"
    by (simp add: parseInt_empty invalid_dimension_def)
  show ?thesis
    using h invalid_dimensions_reach_createBaseplate [of "[]" "code_units ''100''"]
      invalid_dimensions_reach_createBaseplate [of "code_units ''100000000000000000''" "[]"]
    by (auto simp: parseInt_empty parseInt_100 parseInt_1e17 tilesX_1e17)
qed

text \<open>
  Claim C10. For every width, length, tile size and plate height, the mode that loads
  assets and the mode that builds boxes compute the same sequence of positions: both
  visit the columns from 0 and, within a column, the rows from 0, and place the tile at
  \<open>(x * tileSize - offsetX, yPosition, z * tileSize - offsetZ)\<close>; the position that the
  callback of a load gives to its tile is the position of the box of the same cell. One
  mode returns exactly when the other does, and both return when width, length and tile
  size are positive integers up to \<open>2^52\<close>.
\<close>

theorem modes_same_positions:
  "map_option placements (createBaseplate_with True sc width length' ya ta) =
   map_option placements (createBaseplate_with False sc width length' ya ta) \<and>
   (\<forall>ra rg. createBaseplate_with True sc width length' ya ta = Some ra \<and>
            createBaseplate_with False sc width length' ya ta = Some rg \<longrightarrow>
      map load_position (loads ra) = map position (children (baseplate rg)) \<and>
      (\<forall>gltf_scene bp.
         map (\<lambda>call. position (last (children (tile_onLoad call gltf_scene bp)))) (loads ra) =
         map position (children (baseplate rg))) \<and>
      placements ra = placements rg \<and>
      placements ra =
        grid (iterations (tilesX width (default_arg ta (Fin 4))))
             (iterations (tilesZ length' (default_arg ta (Fin 4))))
          (\<lambda>x z. \<lparr>vx = js_sub (js_mul (Fin (of_nat x)) (default_arg ta (Fin 4)))
                          (offsetX (tilesX width (default_arg ta (Fin 4))) (default_arg ta (Fin 4))),
                   vy = default_arg ya (Fin (- 4)),
                   vz = js_sub (js_mul (Fin (of_nat z)) (default_arg ta (Fin 4)))
                          (offsetZ (tilesZ length' (default_arg ta (Fin 4))) (default_arg ta (Fin 4)))\<rparr>)) \<and>
   ((createBaseplate_with True sc width length' ya ta = None) =
    (createBaseplate_with False sc width length' ya ta = None)) \<and>
   (exact_dimension w \<and> exact_dimension l \<and> exact_dimension t \<and>
    width = Fin w \<and> length' = Fin l \<and> default_arg ta (Fin 4) = Fin t \<longrightarrow>
      (\<exists>ra rg. createBaseplate_with True sc width length' ya ta = Some ra \<and>
           createBaseplate_with False sc width length' ya ta = Some rg \<and>
           map load_position (loads ra) = map position (children (baseplate rg)) \<and>
           placements ra = placements rg \<and>
           placements ra = computeTilePlacements w l t (default_arg ya (Fin (- 4)))))"
proof (intro conjI allI impI)
  show "map_option placements (createBaseplate_with True sc width length' ya ta) =
        map_option placements (createBaseplate_with False sc width length' ya ta)"
    by (rule placements_mode_independent)
  show "(createBaseplate_with True sc width length' ya ta = None) =
        (createBaseplate_with False sc width length' ya ta = None)"
    by (simp add: createBaseplate_with_cases)
next
  fix ra rg
  assume a: "createBaseplate_with True sc width length' ya ta = Some ra \<and>
             createBaseplate_with False sc width length' ya ta = Some rg"
  then have ra: "ra = layout_result True sc width length' (default_arg ya (Fin (- 4))) (default_arg ta (Fin 4))"
    and rg: "rg = layout_result False sc width length' (default_arg ya (Fin (- 4))) (default_arg ta (Fin 4))"
    by (simp_all add: createBaseplate_with_Some(2))
  show lp: "map load_position (loads ra) = map position (children (baseplate rg))"
    unfolding ra rg
    by (simp add: layout_result_asset layout_result_geometry map_grid load_position_def
        tile_load_def tile_mesh_def)
  show "placements ra = placements rg"
    unfolding ra rg by (simp add: placements_layout_result)
  show "placements ra =
        grid (iterations (tilesX width (default_arg ta (Fin 4))))
             (iterations (tilesZ length' (default_arg ta (Fin 4))))
          (\<lambda>x z. \<lparr>vx = js_sub (js_mul (Fin (of_nat x)) (default_arg ta (Fin 4)))
                          (offsetX (tilesX width (default_arg ta (Fin 4))) (default_arg ta (Fin 4))),
                   vy = default_arg ya (Fin (- 4)),
                   vz = js_sub (js_mul (Fin (of_nat z)) (default_arg ta (Fin 4)))
                          (offsetZ (tilesZ length' (default_arg ta (Fin 4))) (default_arg ta (Fin 4)))\<rparr>)"
    unfolding ra by (rule placements_layout_result)
  fix gltf_scene bp
  show "map (\<lambda>call. position (last (children (tile_onLoad call gltf_scene bp)))) (loads ra) =
         map position (children (baseplate rg))"
    unfolding lp [symmetric] by (simp add: tile_onLoad_position)
next
  assume a: "exact_dimension w \<and> exact_dimension l \<and> exact_dimension t \<and>
    width = Fin w \<and> length' = Fin l \<and> default_arg ta (Fin 4) = Fin t"
  then have e: "exact_dimension w" "exact_dimension l" "exact_dimension t"
    and ta: "default_arg ta (Fin 4) = Fin t" and eq: "width = Fin w" "length' = Fin l"
    by simp_all
  obtain ra where ra: "createBaseplate_with True sc (Fin w) (Fin l) ya ta = Some ra"
    and pa: "placements ra = computeTilePlacements w l t (default_arg ya (Fin (- 4)))"
    using placements_createBaseplate [OF e ta] by blast
  obtain rg where rg: "createBaseplate_with False sc (Fin w) (Fin l) ya ta = Some rg"
    and pg: "placements rg = computeTilePlacements w l t (default_arg ya (Fin (- 4)))"
    using placements_createBaseplate [OF e ta] by blast
  have "children (baseplate ra) = []"
    unfolding createBaseplate_with_Some(2) [OF ra] by (rule layout_result_asset)
  moreover have "loads rg = []"
    unfolding createBaseplate_with_Some(2) [OF rg] by (rule layout_result_geometry)
  ultimately have "map load_position (loads ra) = map position (children (baseplate rg))"
    using pa pg by (simp add: placements_def)
  with ra rg pa pg show "\<exists>ra rg. createBaseplate_with True sc width length' ya ta = Some ra \<and>
           createBaseplate_with False sc width length' ya ta = Some rg \<and>
           map load_position (loads ra) = map position (children (baseplate rg)) \<and>
           placements ra = placements rg \<and>
           placements ra = computeTilePlacements w l t (default_arg ya (Fin (- 4)))"
    unfolding eq by simp
qed

theorem modes_same_positions_witness:
  "exact_dimension 9 \<and> exact_dimension 5 \<and> exact_dimension 4 \<and>
   default_arg None (Fin 4) = Fin 4 \<and>
   (\<exists>ra rg. createBaseplate_with True new_Scene (Fin 9) (Fin 5) None None = Some ra \<and>
           createBaseplate_with False new_Scene (Fin 9) (Fin 5) None None = Some rg \<and>
           map load_position (loads ra) = map position (children (baseplate rg)) \<and>
           (\<forall>gltf_scene bp.
              map (\<lambda>call. position (last (children (tile_onLoad call gltf_scene bp)))) (loads ra) =
              map position (children (baseplate rg))) \<and>
           placements ra = placements rg \<and>
           placements ra = computeTilePlacements 9 5 4 (Fin (- 4)))"
proof -
  note m = modes_same_positions [of new_Scene "Fin 9" "Fin 5" None None 9 5 4]
  from m obtain ra rg where r: "createBaseplate_with True new_Scene (Fin 9) (Fin 5) None None = Some ra"
    "createBaseplate_with False new_Scene (Fin 9) (Fin 5) None None = Some rg"
    "placements ra = computeTilePlacements 9 5 4 (Fin (- 4))"
    by auto
  with m show ?thesis by auto
qed

end
